theory Spec2Isabelle
  imports Main "HOL-Library.Char_ord" "HOL-Library.List_Lexorder" "HOL-Library.AList"
begin

text \<open>
  A model of the installer script of the ESLint configuration package: the script reads
  the \<^verbatim>\<open>package.json\<close> of the project in the current directory, adds the packages that the
  configuration needs to its devDependencies, pins some versions in \<^verbatim>\<open>resolutions\<close> for
  yarn, writes the manifest back, runs the package manager, copies template files that the
  project does not have yet, completes \<^verbatim>\<open>.gitignore\<close> and deletes the default Next.js
  \<^verbatim>\<open>.eslintrc.json\<close>. The definitions follow the script statement by statement; the
  theorems of the last sections are the properties claimed of it.
\<close>

section \<open>JavaScript objects as ordered property lists\<close>

text \<open>
  The installer script only handles objects whose keys are strings: the parsed
  \<^verbatim>\<open>package.json\<close> documents and the object literals built from them. Such an object is
  modelled by the list of its own properties in the order in which \<^verbatim>\<open>Object.entries\<close>,
  the spread syntax and \<^verbatim>\<open>JSON.stringify\<close> enumerate them: keys that are array indices
  first, in ascending numeric order, then every other key in the order of its creation.
  Strings are lists of code units restricted to the range of \<^typ>\<open>char\<close> (U+0000 to U+00FF),
  where the order of \<^typ>\<open>char\<close> is the order of the code units.
\<close>

type_synonym 'v obj = "(string \<times> 'v) list"

definition is_digit :: "char \<Rightarrow> bool" where
  "is_digit c = (48 \<le> (of_char c :: nat) \<and> (of_char c :: nat) \<le> 57)"

definition digit_val :: "char \<Rightarrow> nat" where
  "digit_val c = of_char c - 48"

definition decimal_val :: "string \<Rightarrow> nat" where
  "decimal_val s = foldl (\<lambda>n c. 10 * n + digit_val c) 0 s"

text \<open>
  An array index is the canonical decimal form of an integer from 0 to 2^32 - 2: digits
  only, no leading zero except for \<^verbatim>\<open>"0"\<close> itself.
\<close>

definition is_array_index :: "string \<Rightarrow> bool" where
  "is_array_index s =
     (s \<noteq> [] \<and> list_all is_digit s \<and> (s = ''0'' \<or> hd s \<noteq> CHR ''0'')
      \<and> decimal_val s < 4294967295)"

text \<open>Creation of a property with a new array-index key: it goes to its numeric place.\<close>

fun insert_index :: "string \<Rightarrow> 'v \<Rightarrow> 'v obj \<Rightarrow> 'v obj" where
  "insert_index k v [] = [(k, v)]"
| "insert_index k v (p # ps) =
     (if is_array_index (fst p) \<and> decimal_val (fst p) < decimal_val k
      then p # insert_index k v ps
      else (k, v) # p # ps)"

definition has_key :: "string \<Rightarrow> 'v obj \<Rightarrow> bool" where
  "has_key k ob = (k \<in> fst ` set ob)"

text \<open>
  Defining or assigning the property \<open>k\<close>: an existing property keeps its place and takes
  the new value; a new one is created.
\<close>

definition js_set :: "'v obj \<Rightarrow> string \<Rightarrow> 'v \<Rightarrow> 'v obj" where
  "js_set ob k v =
     (if has_key k ob then AList.update k v ob
      else if is_array_index k then insert_index k v ob
      else ob @ [(k, v)])"

text \<open>Reading the own property \<open>k\<close>; \<open>None\<close> is \<^verbatim>\<open>undefined\<close>.\<close>

definition js_get :: "'v obj \<Rightarrow> string \<Rightarrow> 'v option" where
  "js_get ob k = map_of ob k"

text \<open>\<^verbatim>\<open>{...target, ...src}\<close>: the properties of \<open>src\<close> are defined on \<open>target\<close> in order.\<close>

definition spread_into :: "'v obj \<Rightarrow> 'v obj \<Rightarrow> 'v obj" where
  "spread_into target src = foldl (\<lambda>ob (k, v). js_set ob k v) target src"

text \<open>Spreading a field that may be absent: \<^verbatim>\<open>...undefined\<close> adds nothing.\<close>

definition spread_opt :: "'v obj \<Rightarrow> 'v obj option \<Rightarrow> 'v obj" where
  "spread_opt target src = (case src of None \<Rightarrow> target | Some s \<Rightarrow> spread_into target s)"

definition fromEntries :: "(string \<times> 'v) list \<Rightarrow> 'v obj" where
  "fromEntries es = spread_into [] es"

text \<open>
  \<^verbatim>\<open>Array.prototype.sort\<close> without a comparator orders the elements by their string
  forms, compared code unit by code unit, and is stable. The string form of an entry
  \<^verbatim>\<open>[key, value]\<close> is the key, a comma and the value.
\<close>

definition entry_string :: "string \<times> string \<Rightarrow> string" where
  "entry_string e = fst e @ '','' @ snd e"

definition js_sort :: "(string \<times> string) list \<Rightarrow> (string \<times> string) list" where
  "js_sort es = sort_key entry_string es"


section \<open>The installer\<close>

subsection \<open>The project and its environment\<close>

text \<open>
  The project manifest \<^verbatim>\<open>package.json\<close> as \<^verbatim>\<open>JSON.parse\<close> returns it: the three
  members the script reads are objects from package names to version strings and may be
  absent; every other member is carried along unread.
\<close>

record manifest =
  dependencies :: "string obj option"
  devDependencies :: "string obj option"
  resolutions :: "string obj option"
  other_members :: "(string \<times> string) list"

text \<open>
  The project directory: the manifest (\<open>None\<close> when the file is missing or does not
  parse) and the text files beside it, by name.
\<close>

record project =
  packageJson :: "manifest option"
  files :: "string \<Rightarrow> string option"

text \<open>
  What the script takes from outside the project. The manifest of the configuration
  package and its template directory belong to the package but are data, not code: they
  are parameters here. \<open>peerDependencies\<close> is the imported base table; \<open>templates\<close> is
  the listing of the template directory, each name with the content that reading it
  returns (\<open>None\<close> when reading throws, for instance on a subdirectory); \<open>unwritable\<close>
  lists the names for which \<^verbatim>\<open>writeFileSync\<close> throws; \<open>install_succeeds\<close> is the exit
  status of the package manager, given whether yarn is used. The package manager is an
  external program: only its success is modelled.
\<close>

record env =
  peerDependencies :: "string obj"
  platform :: string
  templates :: "(string \<times> string option) list"
  unwritable :: "string list"
  install_succeeds :: "bool \<Rightarrow> bool"

datatype error = ManifestUnreadable | WriteFailed | InstallFailed

subsection \<open>Requirements and the merge into devDependencies\<close>

text \<open>\<^verbatim>\<open>projectPackageJson.dependencies || {}\<close>, on which the \<^verbatim>\<open>in\<close> tests are made.\<close>

definition projectDependencies :: "manifest \<Rightarrow> string obj" where
  "projectDependencies m = (case dependencies m of None \<Rightarrow> [] | Some d \<Rightarrow> d)"

definition uses_safeql :: "string obj \<Rightarrow> bool" where
  "uses_safeql deps = (has_key ''next'' deps \<or> has_key ''postgres'' deps)"

definition uses_stylelint :: "string obj \<Rightarrow> bool" where
  "uses_stylelint deps = (has_key ''react-scripts'' deps \<or> has_key ''next'' deps)"

text \<open>The two blocks of assignments to the imported \<^verbatim>\<open>peerDependencies\<close> object.\<close>

definition add_safeql :: "string obj \<Rightarrow> string obj" where
  "add_safeql n =
     js_set (js_set n ''@ts-safeql/eslint-plugin'' ''latest'') ''libpg-query'' ''latest''"

definition add_stylelint :: "string obj \<Rightarrow> string obj" where
  "add_stylelint n =
     js_set (js_set (js_set (js_set (js_set n
       ''postcss-styled-syntax'' ''latest'')
       ''stylelint'' ''latest'')
       ''stylelint-config-css-modules'' ''latest'')
       ''stylelint-config-recommended'' ''latest'')
       ''stylelint-config-recommended-scss'' ''latest''"

definition newDevDependenciesToInstall :: "env \<Rightarrow> string obj \<Rightarrow> string obj" where
  "newDevDependenciesToInstall e deps =
     (let n1 = (if uses_safeql deps \<and> platform e \<noteq> ''win32''
                then add_safeql (peerDependencies e) else peerDependencies e)
      in if uses_stylelint deps then add_stylelint n1 else n1)"

text \<open>
  \<^verbatim>\<open>Object.fromEntries(Object.entries({...devDependencies, ...new}).sort())\<close>; the entries
  of an object are the list that models it.
\<close>

definition merged_devDependencies :: "env \<Rightarrow> manifest \<Rightarrow> string obj" where
  "merged_devDependencies e m =
     fromEntries (js_sort
       (spread_into (spread_opt [] (devDependencies m))
          (newDevDependenciesToInstall e (projectDependencies m))))"

subsection \<open>Resolutions for yarn\<close>

definition pinned_packages :: "string list" where
  "pinned_packages =
     [''@typescript-eslint/eslint-plugin'',
      ''@typescript-eslint/parser'',
      ''eslint-plugin-import'',
      ''eslint-plugin-jest'',
      ''eslint-plugin-jsx-a11y'',
      ''eslint-plugin-react'',
      ''eslint-plugin-react-hooks'']"

text \<open>The \<^verbatim>\<open>reduce\<close>: a value read from devDependencies may be \<^verbatim>\<open>undefined\<close>.\<close>

definition pinned_resolutions :: "string obj \<Rightarrow> string option obj" where
  "pinned_resolutions dev =
     foldl (\<lambda>rs packageName. js_set (spread_into [] rs) packageName (js_get dev packageName))
       [] pinned_packages"

text \<open>The existing resolutions, read from the manifest, have defined values.\<close>

definition defined_values :: "string obj \<Rightarrow> string option obj" where
  "defined_values ob = map (\<lambda>(k, v). (k, Some v)) ob"

text \<open>
  The object literal assigned to \<^verbatim>\<open>projectPackageJson.resolutions\<close>: the existing
  resolutions, the pinned ones over them, and \<^verbatim>\<open>@typescript-eslint/utils\<close> last.
\<close>

definition new_resolutions :: "string obj option \<Rightarrow> string obj \<Rightarrow> string option obj" where
  "new_resolutions existing dev =
     js_set
       (spread_into (spread_opt [] (map_option defined_values existing))
          (pinned_resolutions dev))
       ''@typescript-eslint/utils'' (js_get dev ''@typescript-eslint/parser'')"

text \<open>\<^verbatim>\<open>JSON.stringify\<close> leaves out the properties whose value is \<^verbatim>\<open>undefined\<close>.\<close>

definition stringify_members :: "string option obj \<Rightarrow> string obj" where
  "stringify_members ob = List.map_filter (\<lambda>(k, v). map_option (Pair k) v) ob"

subsection \<open>Files\<close>

text \<open>The manifest is kept apart from the other files of the project directory.\<close>

definition existsSync :: "project \<Rightarrow> string \<Rightarrow> bool" where
  "existsSync p name =
     (name = ''package.json'' \<and> packageJson p \<noteq> None \<or> files p name \<noteq> None)"

definition writeFileSync :: "env \<Rightarrow> project \<Rightarrow> string \<Rightarrow> string \<Rightarrow> project option" where
  "writeFileSync e p name content =
     (if name \<in> set (unwritable e) then None
      else Some (p\<lparr>files := (files p)(name \<mapsto> content)\<rparr>))"

text \<open>Yarn is assumed unless the lock file of pnpm exists.\<close>

definition projectUsesYarn :: "project \<Rightarrow> bool" where
  "projectUsesYarn p = (\<not> existsSync p ''pnpm-lock.yaml'')"

text \<open>
  The manifest after the two assignments, as a later \<^verbatim>\<open>JSON.parse\<close> of the written file
  returns it; \<open>resolutions\<close> is assigned on the yarn path only.
\<close>

definition written_manifest :: "env \<Rightarrow> bool \<Rightarrow> manifest \<Rightarrow> manifest" where
  "written_manifest e usesYarn m =
     (let dev = merged_devDependencies e m
      in m\<lparr>devDependencies := Some dev,
            resolutions := (if usesYarn
                            then Some (stringify_members (new_resolutions (resolutions m) dev))
                            else resolutions m)\<rparr>)"

subsection \<open>Template files\<close>

text \<open>
  One turn of the loop over the template directory. A template whose content cannot be
  read, or whose destination cannot be written, is reported and skipped.
\<close>

definition copy_template :: "env \<Rightarrow> string obj \<Rightarrow> project \<Rightarrow> string \<times> string option \<Rightarrow> project" where
  "copy_template e deps p t =
     (case t of (templateFileName, templateContent) \<Rightarrow>
        if templateFileName = ''stylelint.config.cjs'' \<and> \<not> uses_stylelint deps then p
        else if existsSync p templateFileName then p
        else (case templateContent of
                None \<Rightarrow> p
              | Some c \<Rightarrow>
                  (case writeFileSync e p templateFileName c of
                     None \<Rightarrow> p
                   | Some p' \<Rightarrow> p')))"

definition materialize :: "env \<Rightarrow> string obj \<Rightarrow> (string \<times> string option) list \<Rightarrow> project \<Rightarrow> project" where
  "materialize e deps ts p = foldl (copy_template e deps) p ts"

subsection \<open>The ignore list\<close>

definition newline :: char where
  "newline = CHR 0x0A"

text \<open>\<^verbatim>\<open>s.split('\n')\<close>: never empty, the empty string gives one empty line.\<close>

fun split_lines :: "string \<Rightarrow> string list" where
  "split_lines [] = [[]]"
| "split_lines (c # cs) =
     (if c = newline then [] # split_lines cs
      else (case split_lines cs of [] \<Rightarrow> [[c]] | l # ls \<Rightarrow> (c # l) # ls))"

fun join_lines :: "string list \<Rightarrow> string" where
  "join_lines [] = []"
| "join_lines [l] = l"
| "join_lines (l # ls) = l @ newline # join_lines ls"

text \<open>Reading a missing \<^verbatim>\<open>.gitignore\<close> throws; the error is swallowed and no line is read.\<close>

definition gitignoreContentLines :: "project \<Rightarrow> string list" where
  "gitignoreContentLines p =
     (case files p ''.gitignore'' of None \<Rightarrow> [] | Some c \<Rightarrow> split_lines c)"

definition add_ignorePath :: "string list \<Rightarrow> string \<Rightarrow> string list" where
  "add_ignorePath ls ignorePath = (if ignorePath \<in> set ls then ls else ls @ [ignorePath])"

definition add_ignorePaths :: "string list \<Rightarrow> string list" where
  "add_ignorePaths ls = foldl add_ignorePath ls [''.eslintcache'', ''*.tsbuildinfo'']"

text \<open>
  The text written back: the lines joined, and a newline unless the last line is empty;
  \<^verbatim>\<open>lines.at(-1) === ''\<close> is false on an empty array.
\<close>

definition gitignore_text :: "string list \<Rightarrow> string" where
  "gitignore_text ls =
     join_lines ls @ (if ls \<noteq> [] \<and> last ls = [] then [] else [newline])"

definition update_gitignore :: "env \<Rightarrow> project \<Rightarrow> project option" where
  "update_gitignore e p =
     writeFileSync e p ''.gitignore'' (gitignore_text (add_ignorePaths (gitignoreContentLines p)))"

subsection \<open>The default Next.js ESLint configuration\<close>

text \<open>
  White space and line terminators of \<^verbatim>\<open>String.prototype.trim\<close> up to U+00FF. A file that
  cannot be read is one that \<open>files\<close> does not hold: reading throws and the \<^verbatim>\<open>catch\<close>
  swallows it. Deleting a file that was just read is taken to succeed.
\<close>

definition is_white_space :: "char \<Rightarrow> bool" where
  "is_white_space c = ((of_char c :: nat) \<in> {9, 10, 11, 12, 13, 32, 160})"

definition js_trim :: "string \<Rightarrow> string" where
  "js_trim s = rev (dropWhile is_white_space (rev (dropWhile is_white_space s)))"

definition default_eslintrc :: string where
  "default_eslintrc =
     ''{'' @ [newline] @ ''  '' @ [CHR 0x22] @ ''extends'' @ [CHR 0x22] @ '': '' @ [CHR 0x22]
       @ ''next/core-web-vitals'' @ [CHR 0x22] @ [newline] @ ''}''"

definition prune_eslintrc :: "project \<Rightarrow> project" where
  "prune_eslintrc p =
     (case files p ''.eslintrc.json'' of
        None \<Rightarrow> p
      | Some c \<Rightarrow>
          if js_trim c = default_eslintrc
          then p\<lparr>files := (files p)(''.eslintrc.json'' := None)\<rparr>
          else p)"

subsection \<open>The whole script\<close>

text \<open>
  The statements in their order. An exception outside the three \<^verbatim>\<open>try\<close> blocks ends the
  script: an unreadable manifest, a manifest or ignore list that cannot be written, a
  package manager that fails. The files written before that point stay written; the
  error value does not carry them.
\<close>

definition run :: "env \<Rightarrow> project \<Rightarrow> error + project" where
  "run e p =
     (case packageJson p of
        None \<Rightarrow> Inl ManifestUnreadable
      | Some m \<Rightarrow>
          let usesYarn = projectUsesYarn p in
          if ''package.json'' \<in> set (unwritable e) then Inl WriteFailed
          else if \<not> install_succeeds e usesYarn then Inl InstallFailed
          else
            (case update_gitignore e
                    (materialize e (projectDependencies m) (templates e)
                       (p\<lparr>packageJson := Some (written_manifest e usesYarn m)\<rparr>)) of
               None \<Rightarrow> Inl WriteFailed
             | Some p3 \<Rightarrow> Inr (prune_eslintrc p3)))"

section \<open>Notions used in the statements\<close>

text \<open>Digits only, no leading zero; the empty string stands for zero here.\<close>

definition no_leading_zero :: "string \<Rightarrow> bool" where
  "no_leading_zero s = (list_all is_digit s \<and> (s = [] \<or> hd s \<noteq> CHR ''0''))"

text \<open>
  The order of the own properties of an ordinary object: no key twice, and wherever a key
  is an array index, every key before it is a smaller array index.
\<close>

definition index_before :: "string \<Rightarrow> string \<Rightarrow> bool" where
  "index_before a b = (is_array_index b \<longrightarrow> is_array_index a \<and> decimal_val a < decimal_val b)"

definition obj_wf :: "'v obj \<Rightarrow> bool" where
  "obj_wf ob =
     (distinct (map fst ob) \<and> sorted_wrt (\<lambda>p q. index_before (fst p) (fst q)) ob)"

text \<open>The keys that are not array indices, in their order.\<close>

definition string_keys :: "'v obj \<Rightarrow> string list" where
  "string_keys ob = filter (\<lambda>k. \<not> is_array_index k) (map fst ob)"

text \<open>
  A key on which the sort of the entries is the sort of the keys: it is not an array
  index, and each of its code units is above the comma (U+002C). The characters allowed
  in package names, which are lower-case letters, digits and \<^verbatim>\<open>- . _ ~ @ /\<close>, are all
  above the comma; a name made of digits only can still be an array index, and then it is
  not such a key.
\<close>

definition plain_key :: "string \<Rightarrow> bool" where
  "plain_key k = (\<not> is_array_index k \<and> (\<forall>c\<in>set k. CHR '','' < c))"

text \<open>The members that the script reads are objects in property order.\<close>

definition manifest_wf :: "manifest \<Rightarrow> bool" where
  "manifest_wf m =
     (pred_option obj_wf (dependencies m) \<and> pred_option obj_wf (devDependencies m)
      \<and> pred_option obj_wf (resolutions m))"

definition existing_devDependencies :: "manifest \<Rightarrow> string obj" where
  "existing_devDependencies m = (case devDependencies m of None \<Rightarrow> [] | Some d \<Rightarrow> d)"

text \<open>The object whose entries are sorted: the existing devDependencies under the requirements.\<close>

definition merge_input :: "env \<Rightarrow> manifest \<Rightarrow> string obj" where
  "merge_input e m =
     spread_into (spread_opt [] (devDependencies m))
       (newDevDependenciesToInstall e (projectDependencies m))"

text \<open>
  The devDependencies key whose version a resolution takes: its own, except for
  \<^verbatim>\<open>@typescript-eslint/utils\<close>, which follows \<^verbatim>\<open>@typescript-eslint/parser\<close>.
\<close>

definition resolution_source :: "string \<Rightarrow> string" where
  "resolution_source k =
     (if k = ''@typescript-eslint/utils'' then ''@typescript-eslint/parser'' else k)"

definition existing_resolutions :: "manifest \<Rightarrow> string obj" where
  "existing_resolutions m = (case resolutions m of None \<Rightarrow> [] | Some r \<Rightarrow> r)"

text \<open>A template for which the loop has nothing to do: it is excluded, its destination exists,
  or copying it fails.\<close>

definition template_settled :: "env \<Rightarrow> string obj \<Rightarrow> project \<Rightarrow> string \<times> string option \<Rightarrow> bool" where
  "template_settled e d p t =
     (fst t = ''stylelint.config.cjs'' \<and> \<not> uses_stylelint d \<or> existsSync p (fst t)
      \<or> snd t = None \<or> fst t \<in> set (unwritable e))"

text \<open>
  An assignment that changes nothing in what is written: the object holds the value
  already, or the value is \<^verbatim>\<open>undefined\<close> and the object holds no defined value for the key.
\<close>

definition agrees_with :: "string option obj \<Rightarrow> string \<times> string option \<Rightarrow> bool" where
  "agrees_with ob kx =
     (case snd kx of
        Some v \<Rightarrow> map_of ob (fst kx) = Some (Some v)
      | None \<Rightarrow> map_of ob (fst kx) = None \<or> map_of ob (fst kx) = Some None)"

text \<open>The number of newlines at the end of a text.\<close>

definition trailing_newlines :: "string \<Rightarrow> nat" where
  "trailing_newlines s = length (takeWhile (\<lambda>c. c = newline) (rev s))"

definition ends_with_newline :: "string \<Rightarrow> bool" where
  "ends_with_newline s = (s \<noteq> [] \<and> last s = newline)"

section \<open>A sample project\<close>

definition sample_env :: env where
  "sample_env =
     \<lparr>peerDependencies =
        [(''eslint'', ''^8.50.0''), (''@typescript-eslint/parser'', ''^6.7.0''),
         (''eslint-plugin-react'', ''^7.33.2'')],
      platform = ''linux'',
      templates = [(''.eslintrc.cjs'', Some ''module.exports = {};''),
                   (''stylelint.config.cjs'', Some ''module.exports = {};'')],
      unwritable = [],
      install_succeeds = (\<lambda>usesYarn. True)\<rparr>"

definition sample_manifest :: manifest where
  "sample_manifest =
     \<lparr>dependencies = Some [(''next'', ''^13.0.0'')],
      devDependencies = Some [(''typescript'', ''^5.2.2''), (''eslint'', ''^7.32.0'')],
      resolutions = Some [(''lodash'', ''4.17.21'')],
      other_members = [(''name'', ''sample'')]\<rparr>"

definition windows_env :: env where
  "windows_env = sample_env\<lparr>platform := ''win32''\<rparr>"

definition postgres_manifest :: manifest where
  "postgres_manifest =
     \<lparr>dependencies = Some [(''postgres'', ''^3.0.0'')], devDependencies = None,
      resolutions = None, other_members = []\<rparr>"

definition next_manifest :: manifest where
  "next_manifest =
     \<lparr>dependencies = Some [(''next'', ''^13.0.0'')], devDependencies = None,
      resolutions = None, other_members = []\<rparr>"

definition sample_project :: project where
  "sample_project = \<lparr>packageJson = Some sample_manifest, files = Map.empty\<rparr>"

definition gitignore_project :: project where
  "gitignore_project =
     \<lparr>packageJson = Some sample_manifest,
      files = [''.gitignore'' \<mapsto> ''node_modules'', ''.eslintrc.cjs'' \<mapsto> ''custom'']\<rparr>"

definition bare_project :: project where
  "bare_project =
     \<lparr>packageJson = Some \<lparr>dependencies = None, devDependencies = None, resolutions = None,
                           other_members = []\<rparr>,
      files = Map.empty\<rparr>"

definition nextjs_default_project :: project where
  "nextjs_default_project =
     \<lparr>packageJson = Some sample_manifest,
      files = [''.eslintrc.json'' \<mapsto> default_eslintrc @ [newline]]\<rparr>"

definition custom_eslintrc_project :: project where
  "custom_eslintrc_project =
     \<lparr>packageJson = Some sample_manifest,
      files = [''.eslintrc.json'' \<mapsto> ''{}'']\<rparr>"

definition sample_result :: project where
  "sample_result =
     \<lparr>packageJson = Some
        \<lparr>dependencies = Some [(''next'', ''^13.0.0'')],
         devDependencies = Some
           [(''@ts-safeql/eslint-plugin'', ''latest''),
            (''@typescript-eslint/parser'', ''^6.7.0''),
            (''eslint'', ''^8.50.0''),
            (''eslint-plugin-react'', ''^7.33.2''),
            (''libpg-query'', ''latest''),
            (''postcss-styled-syntax'', ''latest''),
            (''stylelint'', ''latest''),
            (''stylelint-config-css-modules'', ''latest''),
            (''stylelint-config-recommended'', ''latest''),
            (''stylelint-config-recommended-scss'', ''latest''),
            (''typescript'', ''^5.2.2'')],
         resolutions = Some
           [(''lodash'', ''4.17.21''),
            (''@typescript-eslint/parser'', ''^6.7.0''),
            (''eslint-plugin-react'', ''^7.33.2''),
            (''@typescript-eslint/utils'', ''^6.7.0'')],
         other_members = [(''name'', ''sample'')]\<rparr>,
      files = [''.eslintrc.cjs'' \<mapsto> ''module.exports = {};'',
               ''stylelint.config.cjs'' \<mapsto> ''module.exports = {};'',
               ''.gitignore'' \<mapsto> ''.eslintcache'' @ [newline] @ ''*.tsbuildinfo'' @ [newline]]\<rparr>"

section \<open>Properties of JavaScript objects\<close>

subsection \<open>Array indices\<close>

lemma decimal_val_snoc: "decimal_val (s @ [c]) = 10 * decimal_val s + digit_val c"
  by (simp add: decimal_val_def)

lemma digit_val_less: "is_digit c \<Longrightarrow> digit_val c < 10"
  by (auto simp: is_digit_def digit_val_def)

lemma digit_val_inj: "is_digit c \<Longrightarrow> is_digit d \<Longrightarrow> digit_val c = digit_val d \<Longrightarrow> c = d"
proof -
  assume a: "is_digit c" "is_digit d" "digit_val c = digit_val d"
  then have "(of_char c :: nat) = of_char d"
    unfolding is_digit_def digit_val_def by linarith
  then show "c = d" by simp
qed

lemma digit_val_zero: "is_digit c \<Longrightarrow> digit_val c = 0 \<Longrightarrow> c = CHR ''0''"
  using digit_val_inj [of c "CHR ''0''"] by (simp add: is_digit_def digit_val_def)

lemma no_leading_zero_butlast: "no_leading_zero (s @ [c]) \<Longrightarrow> no_leading_zero s"
  by (cases s) (auto simp: no_leading_zero_def)

lemma no_leading_zero_pos: "no_leading_zero s \<Longrightarrow> s \<noteq> [] \<Longrightarrow> 0 < decimal_val s"
proof (induction s rule: rev_induct)
  case Nil
  then show ?case by simp
next
  case (snoc c s)
  show ?case
  proof (cases "s = []")
    case True
    with snoc.prems have "is_digit c" "c \<noteq> CHR ''0''" by (auto simp: no_leading_zero_def)
    then have "digit_val c \<noteq> 0" using digit_val_zero by blast
    with True show ?thesis by (simp add: decimal_val_def)
  next
    case False
    with snoc have "0 < decimal_val s" using no_leading_zero_butlast by blast
    then show ?thesis by (simp add: decimal_val_snoc)
  qed
qed

lemma no_leading_zero_inj:
  "no_leading_zero a \<Longrightarrow> no_leading_zero b \<Longrightarrow> decimal_val a = decimal_val b \<Longrightarrow> a = b"
proof (induction a arbitrary: b rule: rev_induct)
  case Nil
  then show ?case using no_leading_zero_pos [of b] by (cases "b = []") (auto simp: decimal_val_def)
next
  case (snoc c a)
  have pos: "0 < decimal_val (a @ [c])" using snoc.prems(1) no_leading_zero_pos by blast
  then have "b \<noteq> []" using snoc.prems(3) by (auto simp: decimal_val_def)
  then obtain b' d where b: "b = b' @ [d]" by (metis rev_exhaust)
  have dc: "is_digit c" "is_digit d" using snoc.prems b by (auto simp: no_leading_zero_def)
  have eq: "10 * decimal_val a + digit_val c = 10 * decimal_val b' + digit_val d"
    using snoc.prems(3) b by (simp add: decimal_val_snoc)
  have lt: "digit_val c < 10" "digit_val d < 10" using dc digit_val_less by auto
  from eq lt have "decimal_val a = decimal_val b'" "digit_val c = digit_val d" by presburger+
  moreover have "no_leading_zero a" "no_leading_zero b'"
    using snoc.prems b no_leading_zero_butlast by blast+
  ultimately show ?case using snoc.IH b dc digit_val_inj by blast
qed

lemma array_index_inj:
  assumes "is_array_index a" "is_array_index b" "decimal_val a = decimal_val b"
  shows "a = b"
proof -
  have z: "decimal_val ''0'' = 0" by (simp add: decimal_val_def digit_val_def)
  have nz: "\<And>s. is_array_index s \<Longrightarrow> s \<noteq> ''0'' \<Longrightarrow> no_leading_zero s \<and> 0 < decimal_val s"
  proof -
    fix s assume "is_array_index s" "s \<noteq> ''0''"
    then have "no_leading_zero s" "s \<noteq> []" by (auto simp: is_array_index_def no_leading_zero_def)
    then show "no_leading_zero s \<and> 0 < decimal_val s" using no_leading_zero_pos by blast
  qed
  show ?thesis
  proof (cases "a = ''0''")
    case True
    then show ?thesis using assms z nz [of b] by (cases "b = ''0''") auto
  next
    case False
    then show ?thesis using assms z nz [of a] nz [of b] no_leading_zero_inj
      by (cases "b = ''0''") auto
  qed
qed

subsection \<open>Defining properties\<close>

lemma set_insert_index: "set (insert_index k v ob) = insert (k, v) (set ob)"
  by (induction ob) auto

lemma map_of_insert_index:
  "k \<notin> fst ` set ob \<Longrightarrow> map_of (insert_index k v ob) = (map_of ob)(k \<mapsto> v)"
  by (induction ob) (auto simp: fun_upd_twist)

lemma distinct_insert_index:
  "k \<notin> fst ` set ob \<Longrightarrow> distinct (map fst ob) \<Longrightarrow> distinct (map fst (insert_index k v ob))"
  by (induction ob) (auto simp: set_insert_index)

lemma string_keys_insert_index:
  "is_array_index k \<Longrightarrow> string_keys (insert_index k v ob) = string_keys ob"
  by (induction ob) (auto simp: string_keys_def)

lemma sorted_insert_index:
  assumes "is_array_index k" "k \<notin> fst ` set ob"
    and "sorted_wrt (\<lambda>p q. index_before (fst p) (fst q)) ob"
  shows "sorted_wrt (\<lambda>p q. index_before (fst p) (fst q)) (insert_index k v ob)"
  using assms(2,3)
proof (induction ob)
  case Nil
  then show ?case by simp
next
  case (Cons p ps)
  show ?case
  proof (cases "is_array_index (fst p) \<and> decimal_val (fst p) < decimal_val k")
    case True
    with Cons show ?thesis
      by (auto simp: set_insert_index index_before_def)
  next
    case False
    have kp: "index_before k (fst p)"
      using False assms(1) Cons.prems(1) array_index_inj [of k "fst p"]
      by (auto simp: index_before_def)
    have kq: "index_before k (fst q)" if "q \<in> set ps" for q
      using that Cons.prems(2) kp by (fastforce simp: index_before_def)
    from False have "insert_index k v (p # ps) = (k, v) # p # ps" by auto
    with kp kq Cons.prems(2) show ?thesis by simp
  qed
qed

lemma js_set_keys: "fst ` set (js_set ob k v) = insert k (fst ` set ob)"
  by (auto simp: js_set_def has_key_def set_insert_index dom_update)

lemma map_of_snoc_fresh:
  assumes "k \<notin> fst ` set ob"
  shows "map_of (ob @ [(k, v)]) = (map_of ob)(k \<mapsto> v)"
proof -
  have "map_of ob k = None" using assms by (simp add: map_of_eq_None_iff)
  then show ?thesis by (intro ext) (simp add: map_add_def split: option.split)
qed

lemma map_of_js_set: "map_of (js_set ob k v) = (map_of ob)(k \<mapsto> v)"
  by (simp add: js_set_def has_key_def update_conv' map_of_insert_index map_of_snoc_fresh del: map_of_append)

lemma map_fst_js_set_present: "has_key k ob \<Longrightarrow> map fst (js_set ob k v) = map fst ob"
  by (simp add: js_set_def has_key_def update_keys)

lemma string_keys_js_set:
  "string_keys (js_set ob k v) =
     (if is_array_index k \<or> has_key k ob then string_keys ob else string_keys ob @ [k])"
  by (auto simp: js_set_def string_keys_insert_index)
     (auto simp: string_keys_def has_key_def update_keys)

lemma sorted_wrt_map_fst_cong:
  "map fst xs = map fst ys \<Longrightarrow>
   sorted_wrt (\<lambda>p q. R (fst p) (fst q)) xs = sorted_wrt (\<lambda>p q. R (fst p) (fst q)) ys"
  by (metis sorted_wrt_map)

lemma obj_wf_js_set: "obj_wf ob \<Longrightarrow> obj_wf (js_set ob k v)"
proof (cases "has_key k ob")
  case True
  assume "obj_wf ob"
  then show ?thesis
    using map_fst_js_set_present [OF True, of v]
      sorted_wrt_map_fst_cong [of "js_set ob k v" ob index_before]
    by (simp add: obj_wf_def)
next
  case False
  assume wf: "obj_wf ob"
  show ?thesis
  proof (cases "is_array_index k")
    case True
    with False wf show ?thesis
      by (simp add: obj_wf_def js_set_def has_key_def distinct_insert_index sorted_insert_index)
  next
    case nidx: False
    with False wf show ?thesis
      by (auto simp: obj_wf_def js_set_def has_key_def sorted_wrt_append index_before_def)
  qed
qed

lemma obj_wf_Nil: "obj_wf []"
  by (simp add: obj_wf_def)

lemma spread_into_Cons: "spread_into t ((k, v) # s) = spread_into (js_set t k v) s"
  by (simp add: spread_into_def)

lemma spread_into_Nil: "spread_into t [] = t"
  by (simp add: spread_into_def)

lemma obj_wf_spread_into: "obj_wf t \<Longrightarrow> obj_wf (spread_into t s)"
  by (induction s arbitrary: t) (auto simp: spread_into_Nil spread_into_Cons obj_wf_js_set)

lemma obj_wf_fromEntries: "obj_wf (fromEntries es)"
  by (simp add: fromEntries_def obj_wf_spread_into obj_wf_Nil)

lemma map_of_spread_into: "map_of (spread_into t s) = map_of t ++ map_of (rev s)"
proof (induction s arbitrary: t)
  case Nil
  then show ?case by (simp add: spread_into_Nil)
next
  case (Cons p s)
  obtain k v where p: "p = (k, v)" by (cases p)
  have "map_of (spread_into t (p # s)) = map_of (js_set t k v) ++ map_of (rev s)"
    using Cons p by (simp add: spread_into_Cons)
  also have "\<dots> = (map_of t)(k \<mapsto> v) ++ map_of (rev s)"
    by (simp only: map_of_js_set)
  also have "\<dots> = map_of t ++ (map_of (rev s @ [(k, v)]))"
    by (rule ext) (auto simp: map_add_def split: option.splits)
  finally show ?case using p by simp
qed

lemma spread_into_keys: "fst ` set (spread_into t s) = fst ` set t \<union> fst ` set s"
proof (induction s arbitrary: t)
  case Nil
  then show ?case by (simp add: spread_into_Nil)
next
  case (Cons p s)
  obtain k v where p: "p = (k, v)" by (cases p)
  show ?case unfolding p spread_into_Cons Cons.IH js_set_keys by auto
qed

lemma map_fst_spread_into_present:
  "fst ` set s \<subseteq> fst ` set t \<Longrightarrow> map fst (spread_into t s) = map fst t"
proof (induction s arbitrary: t)
  case Nil
  then show ?case by (simp add: spread_into_Nil)
next
  case (Cons p s)
  obtain k v where p: "p = (k, v)" by (cases p)
  with Cons.prems have hk: "has_key k t" by (auto simp: has_key_def)
  have "fst ` set s \<subseteq> fst ` set (js_set t k v)" using Cons.prems by (auto simp: js_set_keys)
  then have "map fst (spread_into (js_set t k v) s) = map fst (js_set t k v)" by (rule Cons.IH)
  with hk p show ?case by (simp add: spread_into_Cons map_fst_js_set_present)
qed

lemma string_keys_spread_into_fresh:
  "distinct (map fst s) \<Longrightarrow> fst ` set s \<inter> fst ` set t = {} \<Longrightarrow>
   string_keys (spread_into t s) = string_keys t @ string_keys s"
proof (induction s arbitrary: t)
  case Nil
  then show ?case by (simp add: spread_into_Nil string_keys_def)
next
  case (Cons p s)
  obtain k v where p: "p = (k, v)" by (cases p)
  have nk: "\<not> has_key k t" using Cons.prems p by (auto simp: has_key_def)
  have "fst ` set s \<inter> fst ` set (js_set t k v) = {}"
    using Cons.prems p by (auto simp: js_set_keys)
  then have "string_keys (spread_into (js_set t k v) s) = string_keys (js_set t k v) @ string_keys s"
    using Cons.prems by (intro Cons.IH) auto
  moreover have "string_keys ((k, v) # s) =
      (if is_array_index k then string_keys s else k # string_keys s)"
    by (simp add: string_keys_def)
  ultimately show ?case using nk p by (simp add: spread_into_Cons string_keys_js_set)
qed

subsection \<open>Objects in property order are determined by their content\<close>

lemma keys_split:
  "sorted_wrt (\<lambda>p q. index_before (fst p) (fst q)) ob \<Longrightarrow>
   map fst ob = filter is_array_index (map fst ob) @ string_keys ob"
proof (induction ob)
  case Nil
  then show ?case by (simp add: string_keys_def)
next
  case (Cons p ps)
  show ?case
  proof (cases "is_array_index (fst p)")
    case True
    with Cons show ?thesis by (simp add: string_keys_def)
  next
    case False
    with Cons.prems have "\<forall>q\<in>set ps. \<not> is_array_index (fst q)"
      by (auto simp: index_before_def)
    then have "filter is_array_index (map fst ps) = []" "string_keys ps = map fst ps"
      by (auto simp: string_keys_def filter_empty_conv filter_id_conv)
    with False show ?thesis by (simp add: string_keys_def)
  qed
qed

lemma index_keys_sorted:
  "sorted_wrt (\<lambda>p q. index_before (fst p) (fst q)) ob \<Longrightarrow>
   sorted_wrt (<) (map decimal_val (filter is_array_index (map fst ob)))"
  by (induction ob) (auto simp: index_before_def)

lemma index_keys_unique:
  assumes "obj_wf a" "obj_wf b" "fst ` set a = fst ` set b"
  shows "filter is_array_index (map fst a) = filter is_array_index (map fst b)"
proof -
  let ?ia = "filter is_array_index (map fst a)" and ?ib = "filter is_array_index (map fst b)"
  have s: "set ?ia = set ?ib" using assms(3) by auto
  have "map decimal_val ?ia = map decimal_val ?ib"
    using assms(1,2) s by (intro strict_sorted_equal) (auto simp: obj_wf_def index_keys_sorted)
  moreover have "inj_on decimal_val (set ?ia \<union> set ?ib)"
    by (rule inj_onI) (auto intro: array_index_inj)
  ultimately show ?thesis by (simp add: inj_on_map_eq_map)
qed

lemma entries_eq_by_keys:
  "map fst xs = map fst ys \<Longrightarrow> distinct (map fst xs) \<Longrightarrow> map_of xs = map_of ys \<Longrightarrow> xs = ys"
proof (induction xs arbitrary: ys)
  case Nil
  then show ?case by simp
next
  case (Cons x xs)
  from Cons.prems(1) obtain y ys' where ys: "ys = y # ys'" by (cases ys) auto
  with Cons.prems have k: "fst x = fst y" and ks: "map fst xs = map fst ys'" by auto
  have "map_of (x # xs) (fst x) = map_of ys (fst x)" by (simp only: Cons.prems(3))
  with ys k have xy: "x = y" by (cases x, cases y) auto
  have "map_of xs = map_of ys'"
  proof (rule ext)
    fix j
    show "map_of xs j = map_of ys' j"
    proof (cases "j = fst x")
      case True
      have n1: "fst x \<notin> set (map fst xs)" using Cons.prems(2) by simp
      have n2: "fst x \<notin> set (map fst ys')" using n1 unfolding ks .
      from n1 n2 True have "map_of xs j = None" "map_of ys' j = None"
        by (simp_all add: map_of_eq_None_iff)
      then show ?thesis by simp
    next
      case False
      have "map_of (x # xs) j = map_of (y # ys') j" by (simp only: Cons.prems(3) ys)
      with False xy show ?thesis by (cases y) simp
    qed
  qed
  with Cons ks xy ys show ?case by auto
qed

lemma map_of_rev_distinct: "distinct (map fst xs) \<Longrightarrow> map_of (rev xs) = map_of xs"
proof (induction xs)
  case Nil
  then show ?case by simp
next
  case (Cons x xs)
  obtain k v where x: "x = (k, v)" by (cases x)
  with Cons.prems have "k \<notin> fst ` set (rev xs)" by auto
  then have "map_of (rev xs @ [(k, v)]) = (map_of (rev xs))(k \<mapsto> v)"
    by (rule map_of_snoc_fresh)
  with Cons x show ?case by simp
qed

lemma obj_wf_unique:
  assumes "obj_wf a" "obj_wf b" "map_of a = map_of b" "string_keys a = string_keys b"
  shows "a = b"
proof -
  have "dom (map_of a) = dom (map_of b)" using assms(3) by simp
  then have "fst ` set a = fst ` set b" by (simp add: dom_map_of_conv_image_fst)
  then have "filter is_array_index (map fst a) = filter is_array_index (map fst b)"
    using assms(1,2) by (rule index_keys_unique [rotated 2])
  have ix: "filter is_array_index (map fst a) = filter is_array_index (map fst b)"
    by fact
  have "map fst a = filter is_array_index (map fst a) @ string_keys a"
    by (rule keys_split) (use assms(1) in \<open>simp add: obj_wf_def\<close>)
  also have "\<dots> = filter is_array_index (map fst b) @ string_keys b"
    by (simp only: ix assms(4))
  also have "\<dots> = map fst b"
    by (rule keys_split [symmetric]) (use assms(2) in \<open>simp add: obj_wf_def\<close>)
  finally have "map fst a = map fst b" .
  then show ?thesis using assms(1,3) by (intro entries_eq_by_keys) (auto simp: obj_wf_def)
qed

lemma spread_into_rebuild: "obj_wf ob \<Longrightarrow> spread_into [] ob = ob"
proof (rule obj_wf_unique)
  assume wf: "obj_wf ob"
  show "obj_wf (spread_into [] ob)" by (simp add: obj_wf_spread_into obj_wf_Nil)
  show "obj_wf ob" by (rule wf)
  show "map_of (spread_into [] ob) = map_of ob"
    using wf by (simp add: map_of_spread_into obj_wf_def map_of_rev_distinct)
  show "string_keys (spread_into [] ob) = string_keys ob"
    using wf string_keys_spread_into_fresh [of ob "[]"] by (simp add: obj_wf_def string_keys_def)
qed

lemma fromEntries_wf: "obj_wf ob \<Longrightarrow> fromEntries ob = ob"
  by (simp add: fromEntries_def spread_into_rebuild)

lemma spread_into_same:
  assumes "obj_wf t" "map_of t ++ map_of (rev s) = map_of t"
  shows "spread_into t s = t"
proof (rule obj_wf_unique)
  show "obj_wf (spread_into t s)" using assms(1) by (rule obj_wf_spread_into)
  show "obj_wf t" by (rule assms(1))
  show "map_of (spread_into t s) = map_of t" using assms(2) by (simp add: map_of_spread_into)
  have "dom (map_of t ++ map_of (rev s)) = dom (map_of t)" by (simp only: assms(2))
  then have "dom (map_of (rev s)) \<subseteq> dom (map_of t)" by (simp only: dom_map_add) blast
  then have "fst ` set s \<subseteq> fst ` set t" by (simp add: dom_map_of_conv_image_fst)
  then have "map fst (spread_into t s) = map fst t" by (rule map_fst_spread_into_present)
  then show "string_keys (spread_into t s) = string_keys t" by (simp add: string_keys_def)
qed

subsection \<open>Sorting the entries\<close>

lemma map_of_filter_key:
  "map_of (filter (\<lambda>p. P (fst p)) xs) k = (if P k then map_of xs k else None)"
  by (induction xs) auto

lemma map_of_fromEntries:
  "distinct (map fst es) \<Longrightarrow> map_of (fromEntries es) = map_of es"
  by (simp add: fromEntries_def map_of_spread_into map_of_rev_distinct)

lemma string_keys_fromEntries:
  "distinct (map fst es) \<Longrightarrow> string_keys (fromEntries es) = string_keys es"
  using string_keys_spread_into_fresh [of es "[]"]
  by (simp add: fromEntries_def string_keys_def)

lemma distinct_keys_js_sort: "distinct (map fst (js_sort es)) = distinct (map fst es)"
  by (simp add: js_sort_def distinct_map)

lemma map_of_js_sort:
  assumes "distinct (map fst es)"
  shows "map_of (js_sort es) = map_of es"
proof -
  have "distinct (map fst (js_sort es))" using assms by (simp add: distinct_keys_js_sort)
  moreover have "set (js_sort es) = set es" by (simp add: js_sort_def)
  ultimately show ?thesis using assms by (simp add: map_of_inject_set)
qed

lemma js_sort_sorted: "sorted (map entry_string (js_sort es))"
  by (simp add: js_sort_def)

lemma js_sort_idem: "js_sort (js_sort es) = js_sort es"
  by (simp add: js_sort_def sort_key_id_if_sorted)

lemma string_entries_eq:
  assumes "distinct (map fst a)" "map_of a = map_of b" "string_keys a = string_keys b"
  shows "filter (\<lambda>p. \<not> is_array_index (fst p)) a = filter (\<lambda>p. \<not> is_array_index (fst p)) b"
proof (rule entries_eq_by_keys)
  let ?Q = "\<lambda>p :: string \<times> 'a. \<not> is_array_index (fst p)"
  show "map fst (filter ?Q a) = map fst (filter ?Q b)"
    using assms(3) by (simp add: string_keys_def filter_map comp_def)
  show "distinct (map fst (filter ?Q a))"
    using assms(1) by (simp add: distinct_map_filter)
  show "map_of (filter ?Q a) = map_of (filter ?Q b)"
    by (rule ext) (simp add: map_of_filter_key [where P = "\<lambda>k. \<not> is_array_index k"] assms(2))
qed

lemma string_keys_js_sort_fromEntries:
  assumes "distinct (map fst es)"
  shows "string_keys (js_sort (fromEntries (js_sort es))) = string_keys (js_sort es)"
proof -
  let ?Q = "\<lambda>p :: string \<times> string. \<not> is_array_index (fst p)"
  let ?S = "js_sort es"
  have dS: "distinct (map fst ?S)" using assms by (simp add: distinct_keys_js_sort)
  have wf: "obj_wf (fromEntries ?S)" by (rule obj_wf_fromEntries)
  have "filter ?Q (fromEntries ?S) = filter ?Q ?S"
    using wf dS by (intro string_entries_eq)
      (simp_all add: obj_wf_def map_of_fromEntries string_keys_fromEntries)
  then have "filter ?Q (js_sort (fromEntries ?S)) = filter ?Q (js_sort ?S)"
    by (simp add: js_sort_def filter_sort)
  then show ?thesis
    by (simp add: string_keys_def filter_map comp_def js_sort_idem)
qed

lemma fromEntries_js_sort_idem:
  assumes "distinct (map fst es)"
  shows "fromEntries (js_sort (fromEntries (js_sort es))) = fromEntries (js_sort es)"
proof (rule obj_wf_unique)
  let ?d = "fromEntries (js_sort es)"
  have dS: "distinct (map fst (js_sort es))" using assms by (simp add: distinct_keys_js_sort)
  have dd: "distinct (map fst ?d)" using obj_wf_fromEntries [of "js_sort es"] by (simp add: obj_wf_def)
  then have dsd: "distinct (map fst (js_sort ?d))" by (simp add: distinct_keys_js_sort)
  show "obj_wf (fromEntries (js_sort ?d))" by (rule obj_wf_fromEntries)
  show "obj_wf ?d" by (rule obj_wf_fromEntries)
  show "map_of (fromEntries (js_sort ?d)) = map_of ?d"
    using dd dsd by (simp add: map_of_fromEntries map_of_js_sort)
  show "string_keys (fromEntries (js_sort ?d)) = string_keys ?d"
    using dsd dS assms by (simp add: string_keys_fromEntries string_keys_js_sort_fromEntries)
qed

subsection \<open>The merge into devDependencies\<close>

lemma entry_string_le_key_le:
  assumes "\<forall>c\<in>set k1. CHR '','' < c" "\<forall>c\<in>set k2. CHR '','' < c"
    and "k1 @ CHR '','' # v1 \<le> k2 @ CHR '','' # v2"
  shows "k1 \<le> k2"
  using assms
proof (induction k1 arbitrary: k2)
  case Nil
  then show ?case by simp
next
  case (Cons a k1)
  show ?case
  proof (cases k2)
    case Nil
    with Cons.prems show ?thesis by auto
  next
    case (Cons b k2')
    with Cons.prems Cons.IH [of k2'] show ?thesis by auto
  qed
qed

lemma sorted_keys_of_sorted_entries:
  assumes "distinct (map fst es)" "sorted (map entry_string es)"
    and "\<forall>p\<in>set es. \<forall>c\<in>set (fst p). CHR '','' < c"
  shows "sorted_wrt (<) (map fst es)"
  using assms
proof (induction es)
  case Nil
  then show ?case by simp
next
  case (Cons p es)
  have "fst p < fst q" if q: "q \<in> set es" for q
  proof -
    have "entry_string p \<le> entry_string q" using Cons.prems(2) q by auto
    then have "fst p \<le> fst q"
      using Cons.prems(3) q entry_string_le_key_le [of "fst p" "fst q" "snd p" "snd q"]
      by (simp add: entry_string_def)
    moreover have "fst p \<noteq> fst q" using Cons.prems(1) q by auto
    ultimately show ?thesis by simp
  qed
  with Cons show ?case by auto
qed

lemma obj_wf_no_index:
  "distinct (map fst ob) \<Longrightarrow> \<forall>p\<in>set ob. \<not> is_array_index (fst p) \<Longrightarrow> obj_wf ob"
  by (simp add: obj_wf_def index_before_def sorted_wrt_iff_nth_less)

lemma plain_keys_sorted:
  assumes "distinct (map fst es)" "\<forall>p\<in>set es. plain_key (fst p)"
  shows "sorted_wrt (<) (map fst (fromEntries (js_sort es)))"
proof -
  have d: "distinct (map fst (js_sort es))" using assms(1) by (simp add: distinct_keys_js_sort)
  have s: "set (js_sort es) = set es" by (simp add: js_sort_def)
  have "obj_wf (js_sort es)"
    using d s assms(2) by (intro obj_wf_no_index) (auto simp: plain_key_def)
  then have "fromEntries (js_sort es) = js_sort es" by (rule fromEntries_wf)
  moreover have "sorted_wrt (<) (map fst (js_sort es))"
    using d s assms(2) js_sort_sorted [of es]
    by (intro sorted_keys_of_sorted_entries) (auto simp: plain_key_def)
  ultimately show ?thesis by simp
qed

lemma obj_wf_spread_opt: "obj_wf (spread_opt [] x)"
  by (cases x) (simp_all add: spread_opt_def obj_wf_Nil obj_wf_spread_into)

lemma spread_opt_wf: "pred_option obj_wf x \<Longrightarrow> spread_opt [] x = (case x of None \<Rightarrow> [] | Some d \<Rightarrow> d)"
  by (cases x) (simp_all add: spread_opt_def spread_into_rebuild)

lemma spread_opt_keys:
  "fst ` set (spread_opt [] x) = fst ` set (case x of None \<Rightarrow> [] | Some d \<Rightarrow> d)"
  by (cases x) (simp_all add: spread_opt_def spread_into_keys)

lemma merged_devDependencies_alt:
  "merged_devDependencies e m = fromEntries (js_sort (merge_input e m))"
  by (simp add: merged_devDependencies_def merge_input_def)

lemma obj_wf_merge_input: "obj_wf (merge_input e m)"
  by (simp add: merge_input_def obj_wf_spread_into obj_wf_spread_opt)

lemma distinct_merge_input: "distinct (map fst (merge_input e m))"
  using obj_wf_merge_input [of e m] by (simp add: obj_wf_def)

lemma obj_wf_merged: "obj_wf (merged_devDependencies e m)"
  by (simp add: merged_devDependencies_def obj_wf_fromEntries)

lemma map_of_merged:
  "map_of (merged_devDependencies e m) =
     map_of (spread_opt [] (devDependencies m))
       ++ map_of (rev (newDevDependenciesToInstall e (projectDependencies m)))"
proof -
  have "map_of (merged_devDependencies e m) = map_of (merge_input e m)"
    using distinct_merge_input [of e m]
    by (simp add: merged_devDependencies_alt map_of_fromEntries map_of_js_sort distinct_keys_js_sort)
  then show ?thesis by (simp add: merge_input_def map_of_spread_into)
qed

lemma merged_keys:
  "fst ` set (merged_devDependencies e m) =
     fst ` set (existing_devDependencies m)
       \<union> fst ` set (newDevDependenciesToInstall e (projectDependencies m))"
proof -
  have "fst ` set (merged_devDependencies e m) = dom (map_of (merged_devDependencies e m))"
    by (simp add: dom_map_of_conv_image_fst)
  also have "\<dots> = fst ` set (spread_opt [] (devDependencies m))
       \<union> fst ` set (newDevDependenciesToInstall e (projectDependencies m))"
    by (simp only: map_of_merged dom_map_add dom_map_of_conv_image_fst set_rev) blast
  finally show ?thesis by (simp add: spread_opt_keys existing_devDependencies_def)
qed

lemma merged_devDependencies_again:
  assumes "dependencies m' = dependencies m"
    and "devDependencies m' = Some (merged_devDependencies e m)"
  shows "merged_devDependencies e m' = merged_devDependencies e m"
proof -
  let ?d = "merged_devDependencies e m"
  let ?n = "newDevDependenciesToInstall e (projectDependencies m)"
  have pd: "projectDependencies m' = projectDependencies m"
    using assms(1) by (simp add: projectDependencies_def)
  have "map_of ?d ++ map_of (rev ?n) = map_of ?d"
    by (simp only: map_of_merged) (rule ext, simp add: map_add_def split: option.split)
  then have "spread_into ?d ?n = ?d" using obj_wf_merged by (intro spread_into_same)
  then have "merge_input e m' = ?d"
    using assms(2) pd obj_wf_merged [of e m]
    by (simp add: merge_input_def spread_opt_def spread_into_rebuild)
  then have "merged_devDependencies e m' = fromEntries (js_sort ?d)"
    by (simp add: merged_devDependencies_alt)
  also have "\<dots> = ?d"
    unfolding merged_devDependencies_alt
    by (rule fromEntries_js_sort_idem) (rule distinct_merge_input)
  finally show ?thesis .
qed

subsection \<open>Requirements\<close>

lemma obj_wf_add_safeql: "obj_wf n \<Longrightarrow> obj_wf (add_safeql n)"
  by (simp add: add_safeql_def obj_wf_js_set)

lemma obj_wf_add_stylelint: "obj_wf n \<Longrightarrow> obj_wf (add_stylelint n)"
  by (simp add: add_stylelint_def obj_wf_js_set)

lemma obj_wf_newDev:
  "obj_wf (peerDependencies e) \<Longrightarrow> obj_wf (newDevDependenciesToInstall e deps)"
  by (simp add: newDevDependenciesToInstall_def Let_def obj_wf_add_safeql obj_wf_add_stylelint)

lemma add_safeql_keys:
  "fst ` set (add_safeql n) =
     insert ''libpg-query'' (insert ''@ts-safeql/eslint-plugin'' (fst ` set n))"
  by (simp add: add_safeql_def js_set_keys)

lemma add_stylelint_keys:
  "fst ` set (add_stylelint n) =
     insert ''stylelint-config-recommended-scss''
       (insert ''stylelint-config-recommended''
         (insert ''stylelint-config-css-modules''
           (insert ''stylelint'' (insert ''postcss-styled-syntax'' (fst ` set n)))))"
  by (simp add: add_stylelint_def js_set_keys)

lemma map_of_add_safeql:
  "map_of (add_safeql n) =
     (map_of n)(''@ts-safeql/eslint-plugin'' \<mapsto> ''latest'', ''libpg-query'' \<mapsto> ''latest'')"
  by (simp add: add_safeql_def map_of_js_set)

lemma map_of_add_stylelint:
  "map_of (add_stylelint n) =
     (map_of n)(''postcss-styled-syntax'' \<mapsto> ''latest'', ''stylelint'' \<mapsto> ''latest'',
       ''stylelint-config-css-modules'' \<mapsto> ''latest'',
       ''stylelint-config-recommended'' \<mapsto> ''latest'',
       ''stylelint-config-recommended-scss'' \<mapsto> ''latest'')"
  by (simp add: add_stylelint_def map_of_js_set)

lemma plain_added_keys:
  "plain_key ''@ts-safeql/eslint-plugin''" "plain_key ''libpg-query''"
  "plain_key ''postcss-styled-syntax''" "plain_key ''stylelint''"
  "plain_key ''stylelint-config-css-modules''" "plain_key ''stylelint-config-recommended''"
  "plain_key ''stylelint-config-recommended-scss''"
  by (simp_all add: plain_key_def is_array_index_def is_digit_def)

lemma all_keys_js_set:
  "(\<forall>p\<in>set (js_set ob k v). P (fst p)) = (P k \<and> (\<forall>p\<in>set ob. P (fst p)))"
proof -
  have "(\<forall>p\<in>set (js_set ob k v). P (fst p)) = (\<forall>j\<in>fst ` set (js_set ob k v). P j)"
    by simp
  then show ?thesis unfolding js_set_keys by simp
qed

lemma newDev_keys_plain:
  assumes "\<forall>p\<in>set (peerDependencies e). plain_key (fst p)"
  shows "\<forall>p\<in>set (newDevDependenciesToInstall e deps). plain_key (fst p)"
  using assms
  by (simp add: newDevDependenciesToInstall_def Let_def add_safeql_def add_stylelint_def
      all_keys_js_set plain_added_keys)

lemma merge_input_keys:
  "fst ` set (merge_input e m) =
     fst ` set (existing_devDependencies m)
       \<union> fst ` set (newDevDependenciesToInstall e (projectDependencies m))"
  by (simp add: merge_input_def spread_into_keys spread_opt_keys existing_devDependencies_def)

lemma merged_sorted_plain:
  assumes "\<forall>p\<in>set (existing_devDependencies m). plain_key (fst p)"
    and "\<forall>p\<in>set (peerDependencies e). plain_key (fst p)"
  shows "sorted_wrt (<) (map fst (merged_devDependencies e m))"
  unfolding merged_devDependencies_alt
proof (rule plain_keys_sorted)
  show "distinct (map fst (merge_input e m))" by (rule distinct_merge_input)
  have "\<forall>k\<in>fst ` set (newDevDependenciesToInstall e (projectDependencies m)). plain_key k"
    using newDev_keys_plain [OF assms(2), of "projectDependencies m"] by simp
  moreover have "\<forall>k\<in>fst ` set (existing_devDependencies m). plain_key k"
    using assms(1) by simp
  ultimately have "\<forall>k\<in>fst ` set (merge_input e m). plain_key k"
    unfolding merge_input_keys by blast
  then show "\<forall>p\<in>set (merge_input e m). plain_key (fst p)" by simp
qed

lemma merged_new_wins:
  assumes "obj_wf (peerDependencies e)"
    and "js_get (newDevDependenciesToInstall e (projectDependencies m)) k = Some v"
  shows "js_get (merged_devDependencies e m) k = Some v"
proof -
  have "distinct (map fst (newDevDependenciesToInstall e (projectDependencies m)))"
    using obj_wf_newDev [OF assms(1)] by (simp add: obj_wf_def)
  then show ?thesis
    using assms(2) by (simp add: js_get_def map_of_merged map_of_rev_distinct)
qed

lemma merged_keeps_unrelated:
  assumes "manifest_wf m"
    and "\<not> has_key k (newDevDependenciesToInstall e (projectDependencies m))"
  shows "js_get (merged_devDependencies e m) k = js_get (existing_devDependencies m) k"
proof -
  have "map_of (rev (newDevDependenciesToInstall e (projectDependencies m))) k = None"
    using assms(2) by (simp add: has_key_def map_of_eq_None_iff)
  moreover have "spread_opt [] (devDependencies m) = existing_devDependencies m"
    using assms(1) by (simp add: manifest_wf_def spread_opt_wf existing_devDependencies_def)
  ultimately show ?thesis by (simp add: js_get_def map_of_merged map_add_def)
qed

lemma written_manifest_devDependencies:
  "devDependencies (written_manifest e y m) = Some (merged_devDependencies e m)"
  by (simp add: written_manifest_def Let_def)

subsection \<open>What the merge attains\<close>

text \<open>
  The devDependencies written to the manifest are the merged mapping. Every requirement is
  in it with the requirement's value, and a key that is not required keeps the value it
  had. The keys come out in strictly ascending order on the inputs where no key of the
  existing devDependencies or of the base table is an array index or holds a code unit up
  to the comma; nothing is said here about the other inputs.
\<close>

lemma merged_devDependencies_sorted:
  assumes "obj_wf (peerDependencies e)" and "manifest_wf m"
  shows "devDependencies (written_manifest e usesYarn m) = Some (merged_devDependencies e m)
    \<and> (list_all plain_key (map fst (existing_devDependencies m))
         \<and> list_all plain_key (map fst (peerDependencies e))
          \<longrightarrow> sorted_wrt (<) (map fst (merged_devDependencies e m)))
    \<and> (\<forall>k v. js_get (newDevDependenciesToInstall e (projectDependencies m)) k = Some v
          \<longrightarrow> js_get (merged_devDependencies e m) k = Some v)
    \<and> (\<forall>k. \<not> has_key k (newDevDependenciesToInstall e (projectDependencies m))
          \<longrightarrow> js_get (merged_devDependencies e m) k = js_get (existing_devDependencies m) k)"
  using assms
  by (simp add: written_manifest_devDependencies merged_sorted_plain merged_new_wins
      merged_keeps_unrelated list_all_iff)

lemma merged_devDependencies_sorted_sample:
  "obj_wf (peerDependencies sample_env) \<and> manifest_wf sample_manifest
   \<and> list_all plain_key (map fst (existing_devDependencies sample_manifest))
   \<and> list_all plain_key (map fst (peerDependencies sample_env))
   \<and> js_get (newDevDependenciesToInstall sample_env (projectDependencies sample_manifest))
        ''eslint'' = Some ''^8.50.0''
   \<and> \<not> has_key ''typescript''
        (newDevDependenciesToInstall sample_env (projectDependencies sample_manifest))
   \<and> sorted_wrt (<) (map fst (merged_devDependencies sample_env sample_manifest))
   \<and> js_get (merged_devDependencies sample_env sample_manifest) ''eslint'' = Some ''^8.50.0''
   \<and> js_get (merged_devDependencies sample_env sample_manifest) ''typescript'' = Some ''^5.2.2''"
proof -
  have h1: "obj_wf (peerDependencies sample_env)"
    by (simp add: sample_env_def obj_wf_def index_before_def is_array_index_def is_digit_def)
  have h2: "manifest_wf sample_manifest"
    by (simp add: sample_manifest_def manifest_wf_def obj_wf_def index_before_def
        is_array_index_def is_digit_def)
  have h3: "list_all plain_key (map fst (existing_devDependencies sample_manifest))
       \<and> list_all plain_key (map fst (peerDependencies sample_env))"
    by (simp add: sample_manifest_def sample_env_def existing_devDependencies_def plain_key_def
        is_array_index_def is_digit_def)
  have n: "newDevDependenciesToInstall sample_env (projectDependencies sample_manifest) =
      [(''eslint'', ''^8.50.0''), (''@typescript-eslint/parser'', ''^6.7.0''),
       (''eslint-plugin-react'', ''^7.33.2''), (''@ts-safeql/eslint-plugin'', ''latest''),
       (''libpg-query'', ''latest''), (''postcss-styled-syntax'', ''latest''),
       (''stylelint'', ''latest''), (''stylelint-config-css-modules'', ''latest''),
       (''stylelint-config-recommended'', ''latest''),
       (''stylelint-config-recommended-scss'', ''latest'')]"
    by (simp add: newDevDependenciesToInstall_def sample_env_def sample_manifest_def
        projectDependencies_def uses_safeql_def uses_stylelint_def add_safeql_def
        add_stylelint_def js_set_def has_key_def is_array_index_def is_digit_def)
  have h4: "js_get (newDevDependenciesToInstall sample_env (projectDependencies sample_manifest))
        ''eslint'' = Some ''^8.50.0''"
    by (simp add: n js_get_def)
  have h5: "\<not> has_key ''typescript''
        (newDevDependenciesToInstall sample_env (projectDependencies sample_manifest))"
    by (simp add: n has_key_def)
  have e: "js_get (existing_devDependencies sample_manifest) ''typescript'' = Some ''^5.2.2''"
    by (simp add: existing_devDependencies_def sample_manifest_def js_get_def)
  note t = merged_devDependencies_sorted [OF h1 h2, of True]
  from conjunct1 [OF conjunct2 [OF t]] h3
  have c1: "sorted_wrt (<) (map fst (merged_devDependencies sample_env sample_manifest))"
    by (rule mp)
  note c2 = conjunct1 [OF conjunct2 [OF conjunct2 [OF t]], rule_format, OF h4]
  note c3 = conjunct2 [OF conjunct2 [OF conjunct2 [OF t]], rule_format, OF h5]
  from h1 h2 h3 h4 h5 c1 c2 c3 e show ?thesis by simp
qed

section \<open>The claims\<close>

subsection \<open>C4: the order of the merged devDependencies\<close>

text \<open>
  C4. The claim asks for the keys of the written devDependencies in strictly ascending
  order for every input, and the script means to give that: its comment on the merge says
  that it sorts alphabetically. The code misses it. The entries are sorted by the string
  form of the whole entry, key and value joined by a comma, so a key that continues
  another key with a code unit below the comma comes first: with the existing keys
  \<^verbatim>\<open>a\<close> and \<^verbatim>\<open>a!\<close> the script writes \<^verbatim>\<open>a!\<close> before \<^verbatim>\<open>a\<close>.
\<close>

theorem merged_devDependencies_unsorted_example:
  "merged_devDependencies
     \<lparr>peerDependencies = [], platform = ''linux'', templates = [], unwritable = [],
      install_succeeds = (\<lambda>usesYarn. True)\<rparr>
     \<lparr>dependencies = None, devDependencies = Some [(''a'', ''1.0.0''), (''a!'', ''1.0.0'')],
      resolutions = None, other_members = []\<rparr>
   = [(''a!'', ''1.0.0''), (''a'', ''1.0.0'')]
   \<and> \<not> sorted_wrt (<) (map fst [(''a!'', ''1.0.0''), (''a'', ''1.0.0'')])"
  by (simp add: merged_devDependencies_def fromEntries_def js_sort_def spread_into_def
      spread_opt_def newDevDependenciesToInstall_def projectDependencies_def uses_safeql_def
      uses_stylelint_def has_key_def js_set_def is_array_index_def is_digit_def entry_string_def)

text \<open>
  The same defect shows on keys that are array indices, such as package names made of
  digits: whatever the sort does, \<^verbatim>\<open>Object.fromEntries\<close> puts them first in numeric order,
  so \<^verbatim>\<open>9\<close> is written before \<^verbatim>\<open>10\<close>.
\<close>

theorem merged_devDependencies_index_keys_example:
  "merged_devDependencies
     \<lparr>peerDependencies = [], platform = ''linux'', templates = [], unwritable = [],
      install_succeeds = (\<lambda>usesYarn. True)\<rparr>
     \<lparr>dependencies = None, devDependencies = Some [(''10'', ''1.0.0''), (''9'', ''1.0.0'')],
      resolutions = None, other_members = []\<rparr>
   = [(''9'', ''1.0.0''), (''10'', ''1.0.0'')]
   \<and> \<not> sorted_wrt (<) (map fst [(''9'', ''1.0.0''), (''10'', ''1.0.0'')])"
  by (simp add: merged_devDependencies_def fromEntries_def js_sort_def spread_into_def
      spread_opt_def newDevDependenciesToInstall_def projectDependencies_def uses_safeql_def
      uses_stylelint_def has_key_def js_set_def is_array_index_def is_digit_def entry_string_def
      decimal_val_def digit_val_def)

subsection \<open>Keys of the requirements\<close>

lemma has_key_add_stylelint_other:
  assumes "k = ''@ts-safeql/eslint-plugin'' \<or> k = ''libpg-query''"
  shows "has_key k (add_stylelint n) = has_key k n"
  using assms unfolding has_key_def add_stylelint_keys by (elim disjE) simp_all

lemma has_key_merged:
  "has_key k (merged_devDependencies e m) =
     (has_key k (existing_devDependencies m)
      \<or> has_key k (newDevDependenciesToInstall e (projectDependencies m)))"
  unfolding has_key_def merged_keys by simp

lemma map_of_add_stylelint_other:
  assumes "k = ''@ts-safeql/eslint-plugin'' \<or> k = ''libpg-query''"
  shows "map_of (add_stylelint n) k = map_of n k"
  using assms unfolding map_of_add_stylelint by (elim disjE) simp_all

lemma has_key_js_set: "has_key j (js_set ob k v) = (j = k \<or> has_key j ob)"
  unfolding has_key_def js_set_keys by simp

subsection \<open>C5: no SafeQL packages on Windows\<close>

text \<open>
  C5. When \<^verbatim>\<open>dependencies\<close> contains \<^verbatim>\<open>postgres\<close> and the platform is \<^verbatim>\<open>win32\<close>, the
  script adds neither \<^verbatim>\<open>@ts-safeql/eslint-plugin\<close> nor \<^verbatim>\<open>libpg-query\<close>: the requirements
  hold for each of them what the base table holds, and each is a key of the resulting
  devDependencies only if it was one of the base table or of the existing devDependencies.
\<close>

theorem safeql_excluded_on_windows:
  assumes "has_key ''postgres'' (projectDependencies m)" and "platform e = ''win32''"
    and "k = ''@ts-safeql/eslint-plugin'' \<or> k = ''libpg-query''"
  shows "js_get (newDevDependenciesToInstall e (projectDependencies m)) k
           = js_get (peerDependencies e) k
    \<and> has_key k (merged_devDependencies e m)
           = (has_key k (peerDependencies e) \<or> has_key k (existing_devDependencies m))"
proof -
  have n: "newDevDependenciesToInstall e (projectDependencies m) =
      (if uses_stylelint (projectDependencies m) then add_stylelint (peerDependencies e)
       else peerDependencies e)"
    using assms(2) by (simp add: newDevDependenciesToInstall_def)
  have "js_get (newDevDependenciesToInstall e (projectDependencies m)) k
           = js_get (peerDependencies e) k"
    using assms(3) by (simp add: n js_get_def map_of_add_stylelint_other)
  moreover have "has_key k (newDevDependenciesToInstall e (projectDependencies m))
           = has_key k (peerDependencies e)"
    using assms(3) by (simp add: n has_key_add_stylelint_other)
  ultimately show ?thesis by (auto simp: has_key_merged)
qed

theorem safeql_excluded_on_windows_witness:
  "has_key ''postgres'' (projectDependencies postgres_manifest)
   \<and> platform windows_env = ''win32''
   \<and> js_get (newDevDependenciesToInstall windows_env (projectDependencies postgres_manifest))
         ''libpg-query'' = None
   \<and> \<not> has_key ''libpg-query'' (merged_devDependencies windows_env postgres_manifest)"
proof -
  have h1: "has_key ''postgres'' (projectDependencies postgres_manifest)"
    by (simp add: postgres_manifest_def projectDependencies_def has_key_def)
  have h2: "platform windows_env = ''win32''"
    by (simp add: windows_env_def)
  have b: "js_get (peerDependencies windows_env) ''libpg-query'' = None"
    "\<not> has_key ''libpg-query'' (peerDependencies windows_env)"
    "\<not> has_key ''libpg-query'' (existing_devDependencies postgres_manifest)"
    by (simp_all add: windows_env_def sample_env_def postgres_manifest_def
        existing_devDependencies_def js_get_def has_key_def)
  from safeql_excluded_on_windows [OF h1 h2, of "''libpg-query''"] h1 h2 b
  show ?thesis by simp
qed

subsection \<open>C6: a Next.js project without devDependencies\<close>

text \<open>
  C6. For a manifest with \<^verbatim>\<open>dependencies\<close> \<^verbatim>\<open>{ "next": "^13.0.0" }\<close> and no
  devDependencies (the member absent or empty), on a platform other than \<^verbatim>\<open>win32\<close>, the written devDependencies contain
  every key of the base table and the five Stylelint packages, each of the five with the
  version \<^verbatim>\<open>latest\<close>, and their keys are in ascending order. The base table is the
  \<^verbatim>\<open>peerDependencies\<close> object of the configuration package, whose keys are package names.
\<close>

theorem next_project_devDependencies:
  assumes "dependencies m = Some [(''next'', ''^13.0.0'')]"
    and "existing_devDependencies m = []"
    and "platform e \<noteq> ''win32''" and "obj_wf (peerDependencies e)"
  shows "devDependencies (written_manifest e usesYarn m) = Some (merged_devDependencies e m)
    \<and> (\<forall>k. has_key k (peerDependencies e) \<longrightarrow> has_key k (merged_devDependencies e m))
    \<and> js_get (merged_devDependencies e m) ''postcss-styled-syntax'' = Some ''latest''
    \<and> js_get (merged_devDependencies e m) ''stylelint'' = Some ''latest''
    \<and> js_get (merged_devDependencies e m) ''stylelint-config-css-modules'' = Some ''latest''
    \<and> js_get (merged_devDependencies e m) ''stylelint-config-recommended'' = Some ''latest''
    \<and> js_get (merged_devDependencies e m) ''stylelint-config-recommended-scss'' = Some ''latest''
    \<and> (list_all plain_key (map fst (peerDependencies e))
          \<longrightarrow> sorted_wrt (<) (map fst (merged_devDependencies e m)))"
proof -
  let ?n = "newDevDependenciesToInstall e (projectDependencies m)"
  have n: "?n = add_stylelint (add_safeql (peerDependencies e))"
    using assms(1,3)
    by (simp add: newDevDependenciesToInstall_def projectDependencies_def uses_safeql_def
        uses_stylelint_def has_key_def)
  note ex = assms(2)
  have keys: "has_key k (merged_devDependencies e m)" if "has_key k (peerDependencies e)" for k
    using that by (simp add: has_key_merged n add_stylelint_def add_safeql_def has_key_js_set)
  have latest: "js_get (merged_devDependencies e m) k = Some ''latest''"
    if "js_get ?n k = Some ''latest''" for k
    using that assms(4) by (rule merged_new_wins [rotated])
  have srt: "sorted_wrt (<) (map fst (merged_devDependencies e m))"
    if "list_all plain_key (map fst (peerDependencies e))"
    using that ex by (intro merged_sorted_plain) (simp_all add: list_all_iff)
  have l: "js_get ?n ''postcss-styled-syntax'' = Some ''latest''"
    "js_get ?n ''stylelint'' = Some ''latest''"
    "js_get ?n ''stylelint-config-css-modules'' = Some ''latest''"
    "js_get ?n ''stylelint-config-recommended'' = Some ''latest''"
    "js_get ?n ''stylelint-config-recommended-scss'' = Some ''latest''"
    by (simp_all add: n js_get_def map_of_add_stylelint)
  show ?thesis
    using keys srt l [THEN latest] by (simp add: written_manifest_devDependencies)
qed

theorem next_project_devDependencies_witness:
  "dependencies next_manifest = Some [(''next'', ''^13.0.0'')]
   \<and> existing_devDependencies next_manifest = []
   \<and> platform sample_env \<noteq> ''win32''
   \<and> obj_wf (peerDependencies sample_env)
   \<and> has_key ''eslint'' (peerDependencies sample_env)
   \<and> list_all plain_key (map fst (peerDependencies sample_env))
   \<and> has_key ''eslint'' (merged_devDependencies sample_env next_manifest)
   \<and> js_get (merged_devDependencies sample_env next_manifest) ''stylelint'' = Some ''latest''
   \<and> sorted_wrt (<) (map fst (merged_devDependencies sample_env next_manifest))"
proof -
  have h1: "dependencies next_manifest = Some [(''next'', ''^13.0.0'')]"
    and h2: "existing_devDependencies next_manifest = []"
    by (simp_all add: next_manifest_def existing_devDependencies_def)
  have h3: "platform sample_env \<noteq> ''win32''"
    by (simp add: sample_env_def)
  have h4: "obj_wf (peerDependencies sample_env)"
    by (simp add: sample_env_def obj_wf_def index_before_def is_array_index_def is_digit_def)
  have h5: "has_key ''eslint'' (peerDependencies sample_env)"
    by (simp add: sample_env_def has_key_def)
  have h6: "list_all plain_key (map fst (peerDependencies sample_env))"
    by (simp add: sample_env_def plain_key_def is_array_index_def is_digit_def)
  note t = next_project_devDependencies [OF h1 h2 h3 h4, of True]
  note c1 = conjunct1 [OF conjunct2 [OF t], rule_format, OF h5]
  from t have c2: "js_get (merged_devDependencies sample_env next_manifest) ''stylelint''
      = Some ''latest''"
    by simp
  from t h6 have c3: "sorted_wrt (<) (map fst (merged_devDependencies sample_env next_manifest))"
    by simp
  from h1 h2 h3 h4 h5 h6 c1 c2 c3 show ?thesis by simp
qed

subsection \<open>The ignore list\<close>

lemma split_lines_nonempty: "split_lines s \<noteq> []"
  by (induction s) (auto split: list.splits)

lemma join_split_lines: "join_lines (split_lines s) = s"
proof (induction s)
  case Nil
  then show ?case by simp
next
  case (Cons c s)
  obtain l ls where sp: "split_lines s = l # ls"
    using split_lines_nonempty [of s] by (cases "split_lines s") auto
  with Cons show ?case by (cases ls) auto
qed

lemma last_split_lines: "(last (split_lines s) = []) = (s = [] \<or> last s = newline)"
proof (induction s)
  case Nil
  then show ?case by simp
next
  case (Cons c s)
  obtain l ls where sp: "split_lines s = l # ls"
    using split_lines_nonempty [of s] by (cases "split_lines s") auto
  show ?case
  proof (cases "c = newline")
    case True
    with sp Cons show ?thesis by (cases s) auto
  next
    case False
    show ?thesis
    proof (cases ls)
      case Nil
      have "s = l" using join_split_lines [of s] sp Nil by simp
      with False sp Nil Cons show ?thesis by (cases s) auto
    next
      case (Cons l' ls')
      with False sp Cons.IH show ?thesis by (cases s) auto
    qed
  qed
qed

lemma join_lines_snoc:
  "join_lines (ls @ [l]) = (if ls = [] then l else join_lines ls @ newline # l)"
  by (induction ls rule: join_lines.induct) auto

lemma trailing_newlines_snoc_newline:
  "trailing_newlines (s @ [newline]) = Suc (trailing_newlines s)"
  by (simp add: trailing_newlines_def)

lemma trailing_newlines_zero:
  "s \<noteq> [] \<Longrightarrow> last s \<noteq> newline \<Longrightarrow> trailing_newlines s = 0"
  by (cases s rule: rev_cases) (auto simp: trailing_newlines_def)

lemma trailing_newlines_pos: "ends_with_newline s \<Longrightarrow> 0 < trailing_newlines s"
  by (cases s rule: rev_cases) (auto simp: trailing_newlines_def ends_with_newline_def)

lemma gitignore_text_snoc:
  assumes "l \<noteq> []" "last l \<noteq> newline"
  shows "trailing_newlines (gitignore_text (ls @ [l])) = 1"
proof -
  have "join_lines (ls @ [l]) \<noteq> []" "last (join_lines (ls @ [l])) = last l"
    using assms(1) by (auto simp: join_lines_snoc)
  then have "trailing_newlines (join_lines (ls @ [l])) = 0"
    using assms(2) by (simp add: trailing_newlines_zero)
  then show ?thesis using assms(1)
    by (simp add: gitignore_text_def trailing_newlines_snoc_newline)
qed

lemma add_ignorePaths_cases:
  "add_ignorePaths ls =
     (if ''.eslintcache'' \<in> set ls
      then (if ''*.tsbuildinfo'' \<in> set ls then ls else ls @ [''*.tsbuildinfo''])
      else (if ''*.tsbuildinfo'' \<in> set ls then ls @ [''.eslintcache'']
            else (ls @ [''.eslintcache'']) @ [''*.tsbuildinfo'']))"
  by (simp add: add_ignorePaths_def add_ignorePath_def)

lemma gitignore_text_added:
  assumes "\<not> (''.eslintcache'' \<in> set ls \<and> ''*.tsbuildinfo'' \<in> set ls)"
  shows "trailing_newlines (gitignore_text (add_ignorePaths ls)) = 1"
proof -
  have a: "trailing_newlines (gitignore_text (xs @ [''.eslintcache''])) = 1" for xs
    by (rule gitignore_text_snoc) (simp_all add: newline_def)
  have b: "trailing_newlines (gitignore_text (xs @ [''*.tsbuildinfo''])) = 1" for xs
    by (rule gitignore_text_snoc) (simp_all add: newline_def)
  show ?thesis
  proof (cases "''.eslintcache'' \<in> set ls")
    case True
    with assms have "''*.tsbuildinfo'' \<notin> set ls" by simp
    with True show ?thesis by (simp only: add_ignorePaths_cases if_True if_False b)
  next
    case False
    then show ?thesis
      by (cases "''*.tsbuildinfo'' \<in> set ls")
        (simp_all only: add_ignorePaths_cases if_True if_False a b)
  qed
qed

lemma gitignore_text_split:
  "gitignore_text (split_lines c) = (if c = [] \<or> last c = newline then c else c @ [newline])"
  by (simp add: gitignore_text_def split_lines_nonempty last_split_lines join_split_lines)

lemma in_split_lines_nonempty: "l \<in> set (split_lines c) \<Longrightarrow> l \<noteq> [] \<Longrightarrow> c \<noteq> []"
  by (cases c) auto

lemma gitignore_text_present:
  assumes "''.eslintcache'' \<in> set (split_lines c)" "''*.tsbuildinfo'' \<in> set (split_lines c)"
  shows "gitignore_text (add_ignorePaths (split_lines c)) =
           (if ends_with_newline c then c else c @ [newline])"
proof -
  have "c \<noteq> []" using assms(1) in_split_lines_nonempty by fastforce
  then show ?thesis
    using assms by (simp add: add_ignorePaths_cases gitignore_text_split ends_with_newline_def)
qed

subsection \<open>Files and stages\<close>

lemma writeFileSync_Some:
  "writeFileSync e p n c = Some p' \<Longrightarrow>
   p' = p\<lparr>files := (files p)(n \<mapsto> c)\<rparr> \<and> n \<notin> set (unwritable e)"
  by (auto simp: writeFileSync_def split: if_splits)

lemma copy_template_packageJson: "packageJson (copy_template e d p t) = packageJson p"
  by (cases t) (auto simp: copy_template_def writeFileSync_def split: option.splits)

lemma copy_template_keeps:
  "files p n = Some c \<Longrightarrow> files (copy_template e d p t) n = Some c"
  by (cases t) (auto simp: copy_template_def writeFileSync_def existsSync_def split: option.splits)

lemma copy_template_other:
  "n \<noteq> fst t \<Longrightarrow> files (copy_template e d p t) n = files p n"
  by (cases t) (auto simp: copy_template_def writeFileSync_def split: option.splits)

lemma materialize_Nil: "materialize e d [] p = p"
  by (simp add: materialize_def)

lemma materialize_Cons: "materialize e d (t # ts) p = materialize e d ts (copy_template e d p t)"
  by (simp add: materialize_def)

lemma materialize_packageJson: "packageJson (materialize e d ts p) = packageJson p"
  by (induction ts arbitrary: p)
    (simp_all add: materialize_Nil materialize_Cons copy_template_packageJson)

lemma materialize_keeps:
  "files p n = Some c \<Longrightarrow> files (materialize e d ts p) n = Some c"
  by (induction ts arbitrary: p)
    (simp_all add: materialize_Nil materialize_Cons copy_template_keeps)

lemma materialize_other:
  "n \<notin> fst ` set ts \<Longrightarrow> files (materialize e d ts p) n = files p n"
  by (induction ts arbitrary: p)
    (simp_all add: materialize_Nil materialize_Cons copy_template_other)

lemma update_gitignore_Some:
  assumes "update_gitignore e p = Some p'"
  shows "packageJson p' = packageJson p"
    and "files p' = (files p)(''.gitignore'' \<mapsto>
            gitignore_text (add_ignorePaths (gitignoreContentLines p)))"
  using assms by (auto simp: update_gitignore_def dest!: writeFileSync_Some)

lemma update_gitignore_writable:
  "''.gitignore'' \<notin> set (unwritable e) \<Longrightarrow> \<exists>p'. update_gitignore e p = Some p'"
  by (simp add: update_gitignore_def writeFileSync_def)

lemma prune_eslintrc_packageJson: "packageJson (prune_eslintrc p) = packageJson p"
  by (simp add: prune_eslintrc_def split: option.splits)

lemma prune_eslintrc_other:
  "n \<noteq> ''.eslintrc.json'' \<Longrightarrow> files (prune_eslintrc p) n = files p n"
  by (simp add: prune_eslintrc_def split: option.splits)

lemma gitignore_text_missing:
  "gitignore_text (add_ignorePaths []) = ''.eslintcache'' @ [newline] @ ''*.tsbuildinfo'' @ [newline]"
  by (simp add: gitignore_text_def add_ignorePaths_def add_ignorePath_def)

lemma run_Inr:
  assumes "run e p = Inr p'"
  obtains m p3 where "packageJson p = Some m"
    and "''package.json'' \<notin> set (unwritable e)"
    and "install_succeeds e (projectUsesYarn p)"
    and "update_gitignore e
           (materialize e (projectDependencies m) (templates e)
              (p\<lparr>packageJson := Some (written_manifest e (projectUsesYarn p) m)\<rparr>)) = Some p3"
    and "p' = prune_eslintrc p3"
  using assms by (auto simp: run_def Let_def split: option.splits if_splits)

lemma run_succeeds:
  assumes "packageJson p = Some m" "''package.json'' \<notin> set (unwritable e)"
    and "install_succeeds e (projectUsesYarn p)" "''.gitignore'' \<notin> set (unwritable e)"
  shows "\<exists>p'. run e p = Inr p'"
  using assms update_gitignore_writable [OF assms(4)]
  by (simp add: run_def Let_def split: option.splits)

subsection \<open>C7: the newline at the end of the ignore list\<close>

text \<open>
  C7, as amended. For every existing content of \<^verbatim>\<open>.gitignore\<close>, the content written back is
  the lines joined by newlines, followed by one more newline unless the last line is
  empty. It always ends with a newline. It ends with exactly one newline when a required
  pattern was missing. When both patterns were listed, the content is written back as it
  was, with a newline added only if it did not end with one: trailing empty lines stay.
\<close>

theorem gitignore_trailing_newline:
  assumes "files p ''.gitignore'' = Some c" and "update_gitignore e p = Some p'"
  shows "\<exists>w. files p' ''.gitignore'' = Some w
    \<and> w = join_lines (add_ignorePaths (split_lines c))
            @ (if last (add_ignorePaths (split_lines c)) = [] then [] else [newline])
    \<and> 0 < trailing_newlines w
    \<and> (\<not> (''.eslintcache'' \<in> set (split_lines c) \<and> ''*.tsbuildinfo'' \<in> set (split_lines c))
          \<longrightarrow> trailing_newlines w = 1)
    \<and> (''.eslintcache'' \<in> set (split_lines c) \<and> ''*.tsbuildinfo'' \<in> set (split_lines c)
          \<longrightarrow> w = (if ends_with_newline c then c else c @ [newline]))"
proof -
  let ?L = "add_ignorePaths (split_lines c)"
  let ?w = "gitignore_text ?L"
  have f: "files p' ''.gitignore'' = Some ?w"
    using update_gitignore_Some(2) [OF assms(2)] assms(1) by (simp add: gitignoreContentLines_def)
  have ne: "?L \<noteq> []"
    using split_lines_nonempty [of c] by (auto simp: add_ignorePaths_cases)
  then have w: "?w = join_lines ?L @ (if last ?L = [] then [] else [newline])"
    by (simp add: gitignore_text_def)
  have present: "?w = (if ends_with_newline c then c else c @ [newline])"
    if "''.eslintcache'' \<in> set (split_lines c) \<and> ''*.tsbuildinfo'' \<in> set (split_lines c)"
    using that by (simp only: gitignore_text_present)
  have added: "trailing_newlines ?w = 1"
    if "\<not> (''.eslintcache'' \<in> set (split_lines c) \<and> ''*.tsbuildinfo'' \<in> set (split_lines c))"
    using that by (rule gitignore_text_added)
  have pos: "0 < trailing_newlines ?w"
  proof (cases "''.eslintcache'' \<in> set (split_lines c) \<and> ''*.tsbuildinfo'' \<in> set (split_lines c)")
    case True
    have "ends_with_newline (if ends_with_newline c then c else c @ [newline])"
      by (simp add: ends_with_newline_def)
    then show ?thesis using present [OF True] trailing_newlines_pos by simp
  next
    case False
    then show ?thesis using added by simp
  qed
  from f w pos added present show ?thesis by blast
qed

theorem gitignore_trailing_newline_witness:
  "files gitignore_project ''.gitignore'' = Some ''node_modules''
   \<and> update_gitignore sample_env gitignore_project =
       Some (gitignore_project\<lparr>files := (files gitignore_project)(''.gitignore'' \<mapsto>
         ''node_modules'' @ [newline] @ ''.eslintcache'' @ [newline] @ ''*.tsbuildinfo''
           @ [newline])\<rparr>)
   \<and> \<not> (''.eslintcache'' \<in> set (split_lines ''node_modules'')
          \<and> ''*.tsbuildinfo'' \<in> set (split_lines ''node_modules''))
   \<and> (\<exists>w. files (gitignore_project\<lparr>files := (files gitignore_project)(''.gitignore'' \<mapsto>
         ''node_modules'' @ [newline] @ ''.eslintcache'' @ [newline] @ ''*.tsbuildinfo''
           @ [newline])\<rparr>) ''.gitignore'' = Some w \<and> trailing_newlines w = 1)"
proof -
  have h1: "files gitignore_project ''.gitignore'' = Some ''node_modules''"
    by (simp add: gitignore_project_def)
  have h2: "update_gitignore sample_env gitignore_project =
       Some (gitignore_project\<lparr>files := (files gitignore_project)(''.gitignore'' \<mapsto>
         ''node_modules'' @ [newline] @ ''.eslintcache'' @ [newline] @ ''*.tsbuildinfo''
           @ [newline])\<rparr>)"
    by (simp add: update_gitignore_def writeFileSync_def sample_env_def gitignoreContentLines_def
        h1 add_ignorePaths_def add_ignorePath_def gitignore_text_def newline_def)
  have h3: "\<not> (''.eslintcache'' \<in> set (split_lines ''node_modules'')
          \<and> ''*.tsbuildinfo'' \<in> set (split_lines ''node_modules''))"
    by (simp add: newline_def)
  from gitignore_trailing_newline [OF h1 h2] h3
  have "\<exists>w. files (gitignore_project\<lparr>files := (files gitignore_project)(''.gitignore'' \<mapsto>
         ''node_modules'' @ [newline] @ ''.eslintcache'' @ [newline] @ ''*.tsbuildinfo''
           @ [newline])\<rparr>) ''.gitignore'' = Some w \<and> trailing_newlines w = 1"
    by blast
  with h1 h2 h3 show ?thesis by blast
qed

text \<open>
  A list that already holds both patterns and ends with an empty line is written back
  unchanged, with its two newlines at the end: the claim as stated fails.
\<close>

theorem gitignore_two_newlines_example:
  "update_gitignore
     \<lparr>peerDependencies = [], platform = ''linux'', templates = [], unwritable = [],
      install_succeeds = (\<lambda>usesYarn. True)\<rparr>
     \<lparr>packageJson = None,
      files = [''.gitignore'' \<mapsto>
        ''.eslintcache'' @ [CHR 0x0A] @ ''*.tsbuildinfo'' @ [CHR 0x0A, CHR 0x0A]]\<rparr>
   = Some \<lparr>packageJson = None,
      files = [''.gitignore'' \<mapsto>
        ''.eslintcache'' @ [CHR 0x0A] @ ''*.tsbuildinfo'' @ [CHR 0x0A, CHR 0x0A]]\<rparr>
   \<and> trailing_newlines (''.eslintcache'' @ [CHR 0x0A] @ ''*.tsbuildinfo'' @ [CHR 0x0A, CHR 0x0A])
       = 2"
  by (simp add: update_gitignore_def writeFileSync_def gitignoreContentLines_def
      add_ignorePaths_def add_ignorePath_def gitignore_text_def newline_def trailing_newlines_def)

subsection \<open>C8: a project without an ignore list\<close>

text \<open>
  C8. When \<^verbatim>\<open>.gitignore\<close> does not exist before the run (and the template directory holds
  no file of that name), the run does not fail for it: with a readable manifest, a
  successful installation and writable files the script ends normally, and afterwards
  \<^verbatim>\<open>.gitignore\<close> holds exactly the two patterns, one per line, with one newline at the end.
\<close>

theorem gitignore_created:
  assumes "packageJson p = Some m" and "files p ''.gitignore'' = None"
    and "''.gitignore'' \<notin> fst ` set (templates e)"
    and "''package.json'' \<notin> set (unwritable e)" and "''.gitignore'' \<notin> set (unwritable e)"
    and "install_succeeds e (projectUsesYarn p)"
  shows "\<exists>p'. run e p = Inr p'
    \<and> files p' ''.gitignore'' = Some (''.eslintcache'' @ [newline] @ ''*.tsbuildinfo'' @ [newline])
    \<and> trailing_newlines (''.eslintcache'' @ [newline] @ ''*.tsbuildinfo'' @ [newline]) = 1"
proof -
  obtain p' where r: "run e p = Inr p'"
    using run_succeeds [OF assms(1,4,6,5)] by blast
  from r obtain m' p3 where m': "packageJson p = Some m'"
    and u: "update_gitignore e
           (materialize e (projectDependencies m') (templates e)
              (p\<lparr>packageJson := Some (written_manifest e (projectUsesYarn p) m')\<rparr>)) = Some p3"
    and p': "p' = prune_eslintrc p3"
    by (rule run_Inr)
  let ?p2 = "materialize e (projectDependencies m') (templates e)
              (p\<lparr>packageJson := Some (written_manifest e (projectUsesYarn p) m')\<rparr>)"
  have "files ?p2 ''.gitignore'' = None"
    using assms(2,3) by (simp add: materialize_other)
  then have "gitignoreContentLines ?p2 = []" by (simp add: gitignoreContentLines_def)
  then have "files p3 ''.gitignore'' = Some (gitignore_text (add_ignorePaths []))"
    using update_gitignore_Some(2) [OF u] by simp
  then have "files p' ''.gitignore''
      = Some (''.eslintcache'' @ [newline] @ ''*.tsbuildinfo'' @ [newline])"
    using p' by (simp add: prune_eslintrc_other gitignore_text_missing)
  moreover have "trailing_newlines (''.eslintcache'' @ [newline] @ ''*.tsbuildinfo'' @ [newline]) = 1"
    by (simp add: trailing_newlines_def newline_def)
  ultimately show ?thesis using r by blast
qed

theorem gitignore_created_witness:
  "packageJson sample_project = Some sample_manifest
   \<and> files sample_project ''.gitignore'' = None
   \<and> ''.gitignore'' \<notin> fst ` set (templates sample_env)
   \<and> ''package.json'' \<notin> set (unwritable sample_env)
   \<and> ''.gitignore'' \<notin> set (unwritable sample_env)
   \<and> install_succeeds sample_env (projectUsesYarn sample_project)
   \<and> (\<exists>p'. run sample_env sample_project = Inr p'
        \<and> files p' ''.gitignore''
            = Some (''.eslintcache'' @ [newline] @ ''*.tsbuildinfo'' @ [newline]))"
proof -
  have h1: "packageJson sample_project = Some sample_manifest"
    and h2: "files sample_project ''.gitignore'' = None"
    by (simp_all add: sample_project_def)
  have h3: "''.gitignore'' \<notin> fst ` set (templates sample_env)"
    and h4: "''package.json'' \<notin> set (unwritable sample_env)"
    and h5: "''.gitignore'' \<notin> set (unwritable sample_env)"
    and h6: "install_succeeds sample_env (projectUsesYarn sample_project)"
    by (simp_all add: sample_env_def)
  from gitignore_created [OF h1 h2 h3 h4 h5 h6]
  have "\<exists>p'. run sample_env sample_project = Inr p'
        \<and> files p' ''.gitignore''
            = Some (''.eslintcache'' @ [newline] @ ''*.tsbuildinfo'' @ [newline])"
    by blast
  with h1 h2 h3 h4 h5 h6 show ?thesis by blast
qed

lemma run_keeps_other_files:
  assumes "run e p = Inr p'" and "files p n = Some c"
    and "n \<noteq> ''.gitignore''" and "n \<noteq> ''.eslintrc.json''"
  shows "files p' n = Some c"
proof -
  from assms(1) obtain m p3 where
    u: "update_gitignore e
           (materialize e (projectDependencies m) (templates e)
              (p\<lparr>packageJson := Some (written_manifest e (projectUsesYarn p) m)\<rparr>)) = Some p3"
    and p': "p' = prune_eslintrc p3"
    by (rule run_Inr)
  have "files (materialize e (projectDependencies m) (templates e)
              (p\<lparr>packageJson := Some (written_manifest e (projectUsesYarn p) m)\<rparr>)) n = Some c"
    using assms(2) by (simp add: materialize_keeps)
  then have "files p3 n = Some c"
    using update_gitignore_Some(2) [OF u] assms(3) by simp
  then show ?thesis using p' assms(4) by (simp add: prune_eslintrc_other)
qed

subsection \<open>C3: existing files are not overwritten\<close>

text \<open>
  C3. The loop over the template directory leaves every file that exists before it with
  the content it had, whatever that content is and whatever the templates are: a template
  is copied only to a name under which nothing exists. The manifest is not touched either.
  Over a whole run the file still has its content at the end, unless it is one of the two
  files that the later stages are there to rewrite or delete, \<^verbatim>\<open>.gitignore\<close> and
  \<^verbatim>\<open>.eslintrc.json\<close>.
\<close>

theorem templates_never_overwrite:
  assumes "files p n = Some c"
  shows "files (materialize e deps ts p) n = Some c
    \<and> packageJson (materialize e deps ts p) = packageJson p
    \<and> (\<forall>p'. run e p = Inr p' \<and> n \<noteq> ''.gitignore'' \<and> n \<noteq> ''.eslintrc.json''
          \<longrightarrow> files p' n = Some c)"
  using assms run_keeps_other_files [of e p _ n c]
  by (simp add: materialize_keeps materialize_packageJson)

theorem templates_never_overwrite_witness:
  "files gitignore_project ''.eslintrc.cjs'' = Some ''custom''
   \<and> files (materialize sample_env (projectDependencies sample_manifest) (templates sample_env)
        gitignore_project) ''.eslintrc.cjs'' = Some ''custom''
   \<and> packageJson (materialize sample_env (projectDependencies sample_manifest)
        (templates sample_env) gitignore_project) = packageJson gitignore_project
   \<and> (\<exists>p'. run sample_env gitignore_project = Inr p'
        \<and> files p' ''.eslintrc.cjs'' = Some ''custom'')"
proof -
  have h: "files gitignore_project ''.eslintrc.cjs'' = Some ''custom''"
    and m: "packageJson gitignore_project = Some sample_manifest"
    by (simp_all add: gitignore_project_def)
  note t = templates_never_overwrite [OF h, of sample_env]
  have "\<exists>p'. run sample_env gitignore_project = Inr p'"
    by (rule run_succeeds [OF m]) (simp_all add: sample_env_def)
  then obtain p' where r: "run sample_env gitignore_project = Inr p'" by blast
  with t have "files p' ''.eslintrc.cjs'' = Some ''custom''" by simp
  with r t h show ?thesis by blast
qed

subsection \<open>C9: the default Next.js configuration\<close>

lemma js_trim_default_eslintrc: "js_trim default_eslintrc = default_eslintrc"
  by (simp add: js_trim_def default_eslintrc_def is_white_space_def newline_def)

text \<open>
  C9, as amended. The content of \<^verbatim>\<open>.eslintrc.json\<close> is compared after trimming: when the
  content without its leading and trailing white space equals the boilerplate, as the
  boilerplate itself does, the file is deleted, and no other file and not the manifest is
  changed; when the trimmed content differs, nothing is changed; when the file is absent,
  which is how an unreadable file appears here, nothing is changed and nothing fails.
\<close>

theorem prune_eslintrc_by_trimmed_content:
  "(files p ''.eslintrc.json'' = None \<longrightarrow> prune_eslintrc p = p)
   \<and> (\<forall>c. files p ''.eslintrc.json'' = Some c \<and> js_trim c = default_eslintrc \<longrightarrow>
          files (prune_eslintrc p) ''.eslintrc.json'' = None
          \<and> (\<forall>n. n \<noteq> ''.eslintrc.json'' \<longrightarrow> files (prune_eslintrc p) n = files p n)
          \<and> packageJson (prune_eslintrc p) = packageJson p)
   \<and> (files p ''.eslintrc.json'' = Some default_eslintrc \<longrightarrow>
          files (prune_eslintrc p) ''.eslintrc.json'' = None)
   \<and> (\<forall>c. files p ''.eslintrc.json'' = Some c \<and> js_trim c \<noteq> default_eslintrc \<longrightarrow>
          prune_eslintrc p = p)"
  by (simp add: prune_eslintrc_def js_trim_default_eslintrc)

theorem prune_eslintrc_by_trimmed_content_witness:
  "files bare_project ''.eslintrc.json'' = None
   \<and> prune_eslintrc bare_project = bare_project
   \<and> files nextjs_default_project ''.eslintrc.json'' = Some (default_eslintrc @ [newline])
   \<and> js_trim (default_eslintrc @ [newline]) = default_eslintrc
   \<and> files (prune_eslintrc nextjs_default_project) ''.eslintrc.json'' = None
   \<and> files custom_eslintrc_project ''.eslintrc.json'' = Some ''{}''
   \<and> js_trim ''{}'' \<noteq> default_eslintrc
   \<and> prune_eslintrc custom_eslintrc_project = custom_eslintrc_project"
proof -
  have a: "files bare_project ''.eslintrc.json'' = None"
    by (simp add: bare_project_def)
  have b: "files nextjs_default_project ''.eslintrc.json'' = Some (default_eslintrc @ [newline])"
    "js_trim (default_eslintrc @ [newline]) = default_eslintrc"
    by (simp_all add: nextjs_default_project_def js_trim_def default_eslintrc_def
        is_white_space_def newline_def)
  have c: "files custom_eslintrc_project ''.eslintrc.json'' = Some ''{}''"
    "js_trim ''{}'' \<noteq> default_eslintrc"
    by (simp_all add: custom_eslintrc_project_def js_trim_def default_eslintrc_def
        is_white_space_def newline_def)
  note t1 = prune_eslintrc_by_trimmed_content [of bare_project]
  note t2 = prune_eslintrc_by_trimmed_content [of nextjs_default_project]
  note t3 = prune_eslintrc_by_trimmed_content [of custom_eslintrc_project]
  from t1 a have r1: "prune_eslintrc bare_project = bare_project" by blast
  from t2 b have r2: "files (prune_eslintrc nextjs_default_project) ''.eslintrc.json'' = None"
    by blast
  from t3 c have r3: "prune_eslintrc custom_eslintrc_project = custom_eslintrc_project"
    by blast
  from a b c r1 r2 r3 show ?thesis by simp
qed

text \<open>
  A file that holds the boilerplate followed by a newline differs from the boilerplate by
  one character and is deleted all the same: the claim as stated fails.
\<close>

theorem prune_eslintrc_trailing_newline_example:
  "default_eslintrc @ [CHR 0x0A] \<noteq> default_eslintrc
   \<and> files (prune_eslintrc
        \<lparr>packageJson = None,
         files = [''.eslintrc.json'' \<mapsto> default_eslintrc @ [CHR 0x0A]]\<rparr>) ''.eslintrc.json''
       = None"
  by (simp add: prune_eslintrc_def js_trim_def default_eslintrc_def is_white_space_def newline_def)

subsection \<open>C10: the runtime dependencies are only read\<close>

lemma run_packageJson:
  assumes "run e p = Inr p'" and "packageJson p = Some m"
  shows "packageJson p' = Some (written_manifest e (projectUsesYarn p) m)"
proof -
  from assms(1) obtain m0 p3 where m0: "packageJson p = Some m0"
    and u: "update_gitignore e
           (materialize e (projectDependencies m0) (templates e)
              (p\<lparr>packageJson := Some (written_manifest e (projectUsesYarn p) m0)\<rparr>)) = Some p3"
    and p': "p' = prune_eslintrc p3"
    by (rule run_Inr)
  from m0 assms(2) have "m0 = m" by simp
  with u p' show ?thesis
    using update_gitignore_Some(1) [OF u]
    by (simp add: prune_eslintrc_packageJson materialize_packageJson)
qed

text \<open>
  C10. The manifest that a run writes back has the \<^verbatim>\<open>dependencies\<close> member of the manifest
  it read, and the members the script does not know are carried over as well. A manifest
  without \<^verbatim>\<open>dependencies\<close> is read as one with no dependency, none of the feature tests
  holds for it, and the manifest written back has no \<^verbatim>\<open>dependencies\<close> member either.
\<close>

theorem dependencies_unchanged:
  assumes "run e p = Inr p'" and "packageJson p = Some m"
  shows "\<exists>m'. packageJson p' = Some m'
    \<and> dependencies m' = dependencies m
    \<and> other_members m' = other_members m
    \<and> (dependencies m = None \<longrightarrow>
          projectDependencies m = [] \<and> \<not> uses_safeql (projectDependencies m)
          \<and> \<not> uses_stylelint (projectDependencies m) \<and> dependencies m' = None)"
  using run_packageJson [OF assms]
  by (simp add: written_manifest_def Let_def projectDependencies_def uses_safeql_def
      uses_stylelint_def has_key_def)

theorem dependencies_unchanged_witness:
  "\<exists>p'. run sample_env bare_project = Inr p'
     \<and> packageJson bare_project
        = Some \<lparr>dependencies = None, devDependencies = None, resolutions = None,
                 other_members = []\<rparr>
     \<and> (\<exists>m'. packageJson p' = Some m' \<and> dependencies m' = None \<and> other_members m' = [])"
proof -
  have h: "packageJson bare_project
        = Some \<lparr>dependencies = None, devDependencies = None, resolutions = None,
                 other_members = []\<rparr>"
    by (simp add: bare_project_def)
  have "\<exists>p'. run sample_env bare_project = Inr p'"
    by (rule run_succeeds [OF h]) (simp_all add: sample_env_def)
  then obtain p' where r: "run sample_env bare_project = Inr p'" by blast
  from dependencies_unchanged [OF r h]
  have "\<exists>m'. packageJson p' = Some m' \<and> dependencies m' = None \<and> other_members m' = []"
    by auto
  with r h show ?thesis by blast
qed

subsection \<open>Resolutions\<close>

lemma map_of_stringify_members:
  "distinct (map fst ob) \<Longrightarrow>
   map_of (stringify_members ob) k = (case map_of ob k of Some (Some v) \<Rightarrow> Some v | _ \<Rightarrow> None)"
proof (induction ob)
  case Nil
  then show ?case by (simp add: stringify_members_def map_filter_simps)
next
  case (Cons p ob)
  obtain j x where p: "p = (j, x)" by (cases p)
  have s: "stringify_members (p # ob) =
      (case x of None \<Rightarrow> stringify_members ob | Some v \<Rightarrow> (j, v) # stringify_members ob)"
    by (simp add: stringify_members_def map_filter_simps p split: option.splits)
  have "map_of ob j = None" using Cons.prems p by (simp add: map_of_eq_None_iff)
  with Cons p s show ?case by (cases x) (auto split: option.splits)
qed

lemma stringify_defined_values: "stringify_members (defined_values ob) = ob"
  by (induction ob) (auto simp: stringify_members_def defined_values_def map_filter_simps)

lemma map_fst_defined_values: "map fst (defined_values ob) = map fst ob"
  by (induction ob) (auto simp: defined_values_def)

lemma map_of_defined_values: "map_of (defined_values ob) k = map_option Some (map_of ob k)"
  by (induction ob) (auto simp: defined_values_def)

lemma obj_wf_defined_values: "obj_wf ob \<Longrightarrow> obj_wf (defined_values ob)"
  using sorted_wrt_map_fst_cong [of "defined_values ob" ob index_before]
  by (simp add: obj_wf_def map_fst_defined_values)

lemma pinned_fold:
  "obj_wf acc \<Longrightarrow>
   foldl (\<lambda>rs packageName. js_set (spread_into [] rs) packageName (f packageName)) acc ps
     = spread_into acc (map (\<lambda>packageName. (packageName, f packageName)) ps)"
proof (induction ps arbitrary: acc)
  case Nil
  then show ?case by (simp add: spread_into_Nil)
next
  case (Cons a ps)
  have "obj_wf (js_set acc a (f a))" using Cons.prems by (rule obj_wf_js_set)
  with Cons show ?case by (simp add: spread_into_Cons spread_into_rebuild)
qed

lemma pinned_resolutions_alt:
  "pinned_resolutions dev =
     spread_into [] (map (\<lambda>packageName. (packageName, js_get dev packageName)) pinned_packages)"
  by (simp add: pinned_resolutions_def pinned_fold obj_wf_Nil)

lemma distinct_pinned_packages: "distinct pinned_packages"
  by (simp add: pinned_packages_def)

lemma map_of_pinned_resolutions:
  "map_of (pinned_resolutions dev) k =
     (if k \<in> set pinned_packages then Some (js_get dev k) else None)"
proof -
  have d: "distinct (map fst (map (\<lambda>p. (p, js_get dev p)) pinned_packages))"
    using distinct_pinned_packages by (simp add: comp_def)
  have "map_of (pinned_resolutions dev) = map_of (map (\<lambda>p. (p, js_get dev p)) pinned_packages)"
    using map_of_rev_distinct [OF d]
    by (simp add: pinned_resolutions_alt map_of_spread_into)
  then show ?thesis by (simp add: map_of_map_restrict restrict_map_def)
qed

lemma obj_wf_new_resolutions: "obj_wf (new_resolutions ex dev)"
  by (simp add: new_resolutions_def obj_wf_js_set obj_wf_spread_into obj_wf_spread_opt)

lemma utils_not_pinned: "''@typescript-eslint/utils'' \<notin> set pinned_packages"
  by (simp add: pinned_packages_def)

lemma map_of_new_resolutions:
  "map_of (new_resolutions ex dev) k =
     (if k = ''@typescript-eslint/utils'' then Some (js_get dev ''@typescript-eslint/parser'')
      else if k \<in> set pinned_packages then Some (js_get dev k)
      else map_of (spread_opt [] (map_option defined_values ex)) k)"
proof -
  have "obj_wf (pinned_resolutions dev)"
    unfolding pinned_resolutions_alt by (rule obj_wf_spread_into [OF obj_wf_Nil])
  then have "map_of (rev (pinned_resolutions dev)) = map_of (pinned_resolutions dev)"
    by (intro map_of_rev_distinct) (simp add: obj_wf_def)
  then show ?thesis
    by (simp add: new_resolutions_def map_of_js_set map_of_spread_into map_add_def
        map_of_pinned_resolutions)
qed

lemma spread_opt_defined_existing:
  "manifest_wf m \<Longrightarrow>
   spread_opt [] (map_option defined_values (resolutions m))
     = defined_values (existing_resolutions m)"
  by (cases "resolutions m")
    (simp_all add: spread_opt_def existing_resolutions_def manifest_wf_def defined_values_def
      spread_into_rebuild obj_wf_defined_values [unfolded defined_values_def])

lemma written_manifest_resolutions_yarn:
  "resolutions (written_manifest e True m)
     = Some (stringify_members (new_resolutions (resolutions m) (merged_devDependencies e m)))"
  by (simp add: written_manifest_def Let_def)

lemma written_manifest_resolutions_pnpm:
  "resolutions (written_manifest e False m) = resolutions m"
  by (simp add: written_manifest_def Let_def)

subsection \<open>C2: the keys of the resolutions\<close>

text \<open>
  C2, as amended. On the yarn path the manifest gets a \<^verbatim>\<open>resolutions\<close> object. In memory it
  holds, for each of the seven pinned packages and for \<^verbatim>\<open>@typescript-eslint/utils\<close>, the
  value that the merged devDependencies hold for that package (for the latter: for
  \<^verbatim>\<open>@typescript-eslint/parser\<close>), which is \<^verbatim>\<open>undefined\<close> when devDependencies lack the key.
  In the written manifest each of these eight keys is present exactly when its source key
  is a key of devDependencies, with the value copied from there. Every other key of the
  written object is a resolution that the project already had, with its old value.
\<close>

theorem yarn_resolutions_from_devDependencies:
  assumes "manifest_wf m"
  shows "\<exists>r. resolutions (written_manifest e True m) = Some r
    \<and> r = stringify_members (new_resolutions (resolutions m) (merged_devDependencies e m))
    \<and> (\<forall>k\<in>set (''@typescript-eslint/utils'' # pinned_packages).
          js_get (new_resolutions (resolutions m) (merged_devDependencies e m)) k
            = Some (js_get (merged_devDependencies e m) (resolution_source k))
          \<and> js_get r k = js_get (merged_devDependencies e m) (resolution_source k))
    \<and> (\<forall>k. k \<notin> set (''@typescript-eslint/utils'' # pinned_packages) \<longrightarrow>
          js_get r k = js_get (existing_resolutions m) k)"
proof -
  let ?dev = "merged_devDependencies e m"
  let ?nr = "new_resolutions (resolutions m) ?dev"
  have d: "distinct (map fst ?nr)" using obj_wf_new_resolutions [of "resolutions m" ?dev]
    by (simp add: obj_wf_def)
  have mem: "js_get ?nr k = Some (js_get ?dev (resolution_source k))"
    if "k \<in> set (''@typescript-eslint/utils'' # pinned_packages)" for k
    using that utils_not_pinned
    by (auto simp: js_get_def map_of_new_resolutions resolution_source_def)
  have wr: "js_get (stringify_members ?nr) k = js_get ?dev (resolution_source k)"
    if "k \<in> set (''@typescript-eslint/utils'' # pinned_packages)" for k
    using mem [OF that] d by (cases "js_get ?dev (resolution_source k)")
      (simp_all add: js_get_def map_of_stringify_members)
  have other: "js_get (stringify_members ?nr) k = js_get (existing_resolutions m) k"
    if "k \<notin> set (''@typescript-eslint/utils'' # pinned_packages)" for k
    using that d assms
    by (cases "map_of (existing_resolutions m) k")
      (simp_all add: js_get_def map_of_stringify_members map_of_new_resolutions
        spread_opt_defined_existing map_of_defined_values)
  show ?thesis
    using mem wr other by (simp add: written_manifest_resolutions_yarn)
qed


theorem yarn_resolutions_from_devDependencies_witness:
  "manifest_wf sample_manifest
   \<and> (\<exists>r. resolutions (written_manifest sample_env True sample_manifest) = Some r
        \<and> js_get r ''@typescript-eslint/utils''
            = js_get (merged_devDependencies sample_env sample_manifest) ''@typescript-eslint/parser''
        \<and> js_get r ''lodash'' = Some ''4.17.21'')"
proof -
  have h: "manifest_wf sample_manifest"
    by (simp add: sample_manifest_def manifest_wf_def obj_wf_def index_before_def
        is_array_index_def is_digit_def)
  have k1: "''@typescript-eslint/utils'' \<in> set (''@typescript-eslint/utils'' # pinned_packages)"
    by simp
  have k2: "''lodash'' \<notin> set (''@typescript-eslint/utils'' # pinned_packages)"
    by (simp add: pinned_packages_def)
  have s: "resolution_source ''@typescript-eslint/utils'' = ''@typescript-eslint/parser''"
    by (simp add: resolution_source_def)
  have x: "js_get (existing_resolutions sample_manifest) ''lodash'' = Some ''4.17.21''"
    by (simp add: existing_resolutions_def sample_manifest_def js_get_def)
  from yarn_resolutions_from_devDependencies [OF h, of sample_env]
  obtain r where r: "resolutions (written_manifest sample_env True sample_manifest) = Some r"
    and a: "\<forall>k\<in>set (''@typescript-eslint/utils'' # pinned_packages).
          js_get (new_resolutions (resolutions sample_manifest)
                   (merged_devDependencies sample_env sample_manifest)) k
            = Some (js_get (merged_devDependencies sample_env sample_manifest) (resolution_source k))
          \<and> js_get r k
            = js_get (merged_devDependencies sample_env sample_manifest) (resolution_source k)"
    and b: "\<forall>k. k \<notin> set (''@typescript-eslint/utils'' # pinned_packages) \<longrightarrow>
          js_get r k = js_get (existing_resolutions sample_manifest) k"
    by blast
  from a [rule_format, OF k1] s
  have c1: "js_get r ''@typescript-eslint/utils''
            = js_get (merged_devDependencies sample_env sample_manifest) ''@typescript-eslint/parser''"
    by simp
  from b [rule_format, OF k2] x have c2: "js_get r ''lodash'' = Some ''4.17.21''" by simp
  from h r c1 c2 show ?thesis by blast
qed

text \<open>
  A resolution that the project already had is kept, whether or not devDependencies have
  its key: here \<^verbatim>\<open>lodash\<close> is a key of the written resolutions and not of the written
  devDependencies. The claim as stated, for every key of the produced object, fails.
\<close>

theorem yarn_resolutions_kept_key_example:
  "resolutions (written_manifest
      \<lparr>peerDependencies =
         [(''@typescript-eslint/eslint-plugin'', ''^6.7.0''),
          (''@typescript-eslint/parser'', ''^6.7.0''),
          (''eslint'', ''^8.50.0''),
          (''eslint-plugin-import'', ''^2.28.1''),
          (''eslint-plugin-jest'', ''^27.4.0''),
          (''eslint-plugin-jsx-a11y'', ''^6.7.1''),
          (''eslint-plugin-react'', ''^7.33.2''),
          (''eslint-plugin-react-hooks'', ''^4.6.0'')],
       platform = ''linux'', templates = [], unwritable = [],
       install_succeeds = (\<lambda>usesYarn. True)\<rparr> True
      \<lparr>dependencies = None, devDependencies = None,
       resolutions = Some [(''lodash'', ''4.17.21'')], other_members = []\<rparr>)
     = Some
         [(''lodash'', ''4.17.21''),
          (''@typescript-eslint/eslint-plugin'', ''^6.7.0''),
          (''@typescript-eslint/parser'', ''^6.7.0''),
          (''eslint-plugin-import'', ''^2.28.1''),
          (''eslint-plugin-jest'', ''^27.4.0''),
          (''eslint-plugin-jsx-a11y'', ''^6.7.1''),
          (''eslint-plugin-react'', ''^7.33.2''),
          (''eslint-plugin-react-hooks'', ''^4.6.0''),
          (''@typescript-eslint/utils'', ''^6.7.0'')]
   \<and> devDependencies (written_manifest
      \<lparr>peerDependencies =
         [(''@typescript-eslint/eslint-plugin'', ''^6.7.0''),
          (''@typescript-eslint/parser'', ''^6.7.0''),
          (''eslint'', ''^8.50.0''),
          (''eslint-plugin-import'', ''^2.28.1''),
          (''eslint-plugin-jest'', ''^27.4.0''),
          (''eslint-plugin-jsx-a11y'', ''^6.7.1''),
          (''eslint-plugin-react'', ''^7.33.2''),
          (''eslint-plugin-react-hooks'', ''^4.6.0'')],
       platform = ''linux'', templates = [], unwritable = [],
       install_succeeds = (\<lambda>usesYarn. True)\<rparr> True
      \<lparr>dependencies = None, devDependencies = None,
       resolutions = Some [(''lodash'', ''4.17.21'')], other_members = []\<rparr>)
     = Some
         [(''@typescript-eslint/eslint-plugin'', ''^6.7.0''),
          (''@typescript-eslint/parser'', ''^6.7.0''),
          (''eslint'', ''^8.50.0''),
          (''eslint-plugin-import'', ''^2.28.1''),
          (''eslint-plugin-jest'', ''^27.4.0''),
          (''eslint-plugin-jsx-a11y'', ''^6.7.1''),
          (''eslint-plugin-react'', ''^7.33.2''),
          (''eslint-plugin-react-hooks'', ''^4.6.0'')]
   \<and> resolution_source ''lodash'' = ''lodash''"
  by code_simp

subsection \<open>A second run\<close>

lemma split_lines_at_newline:
  "split_lines (a @ newline # b) = split_lines a @ split_lines b"
proof (induction a)
  case Nil
  then show ?case by simp
next
  case (Cons c a)
  obtain l ls where sp: "split_lines a = l # ls"
    using split_lines_nonempty [of a] by (cases "split_lines a") auto
  with Cons show ?case by simp
qed

lemma split_lines_single: "newline \<notin> set l \<Longrightarrow> split_lines l = [l]"
  by (induction l) auto

lemma in_split_join_lines:
  "l \<in> set ls \<Longrightarrow> newline \<notin> set l \<Longrightarrow> l \<in> set (split_lines (join_lines ls))"
proof (induction ls rule: join_lines.induct)
  case 1
  then show ?case by simp
next
  case (2 x)
  then show ?case by (simp add: split_lines_single)
next
  case (3 x y ys)
  then show ?case by (auto simp: split_lines_at_newline split_lines_single)
qed

lemma in_split_gitignore_text:
  assumes "l \<in> set ls" "newline \<notin> set l"
  shows "l \<in> set (split_lines (gitignore_text ls))"
proof -
  have a: "l \<in> set (split_lines (join_lines ls))" using assms by (rule in_split_join_lines)
  have "split_lines (join_lines ls @ [newline]) = split_lines (join_lines ls) @ [[]]"
    using split_lines_at_newline [of "join_lines ls" "[]"] by simp
  with a show ?thesis by (simp add: gitignore_text_def)
qed

lemma add_ignorePaths_has_both:
  "''.eslintcache'' \<in> set (add_ignorePaths ls) \<and> ''*.tsbuildinfo'' \<in> set (add_ignorePaths ls)"
  by (simp add: add_ignorePaths_cases)

lemma ends_with_newline_gitignore_text:
  assumes "''.eslintcache'' \<in> set ls"
  shows "ends_with_newline (gitignore_text ls)"
proof (cases ls rule: rev_cases)
  case Nil
  with assms show ?thesis by simp
next
  case (snoc ls' x)
  show ?thesis
  proof (cases "x = []")
    case True
    with snoc assms have "ls' \<noteq> []" by auto
    with snoc True show ?thesis
      by (simp add: gitignore_text_def join_lines_snoc ends_with_newline_def)
  next
    case False
    with snoc show ?thesis by (simp add: gitignore_text_def ends_with_newline_def)
  qed
qed

lemma gitignore_text_again:
  "gitignore_text (add_ignorePaths (split_lines (gitignore_text (add_ignorePaths ls))))
     = gitignore_text (add_ignorePaths ls)"
proof -
  let ?w = "gitignore_text (add_ignorePaths ls)"
  have "''.eslintcache'' \<in> set (split_lines ?w)" "''*.tsbuildinfo'' \<in> set (split_lines ?w)"
    using add_ignorePaths_has_both [of ls]
    by (auto intro!: in_split_gitignore_text simp: newline_def)
  then have "gitignore_text (add_ignorePaths (split_lines ?w))
      = (if ends_with_newline ?w then ?w else ?w @ [newline])"
    by (rule gitignore_text_present)
  moreover have "ends_with_newline ?w"
    using add_ignorePaths_has_both [of ls] by (intro ends_with_newline_gitignore_text) simp
  ultimately show ?thesis by simp
qed

lemma prune_eslintrc_again: "prune_eslintrc (prune_eslintrc p) = prune_eslintrc p"
  by (simp add: prune_eslintrc_def split: option.splits)

lemma existsSync_copy_template:
  "existsSync p n \<Longrightarrow> existsSync (copy_template e d p t) n"
  using copy_template_keeps [of p n _ e d t] copy_template_packageJson [of e d p t]
  by (auto simp: existsSync_def)

lemma existsSync_materialize:
  "existsSync p n \<Longrightarrow> existsSync (materialize e d ts p) n"
  using materialize_keeps [of p n _ e d ts] materialize_packageJson [of e d ts p]
  by (auto simp: existsSync_def)

lemma copy_template_settles: "template_settled e d (copy_template e d p t) t"
  by (cases t)
    (auto simp: template_settled_def copy_template_def writeFileSync_def existsSync_def
      split: option.splits)

lemma template_settled_copy:
  "template_settled e d p t \<Longrightarrow> template_settled e d (copy_template e d p u) t"
  using existsSync_copy_template [of p "fst t" e d u] by (auto simp: template_settled_def)

lemma template_settled_materialize:
  "template_settled e d p t \<Longrightarrow> template_settled e d (materialize e d ts p) t"
  using existsSync_materialize [of p "fst t" e d ts] by (auto simp: template_settled_def)

lemma materialize_settles: "t \<in> set ts \<Longrightarrow> template_settled e d (materialize e d ts p) t"
proof (induction ts arbitrary: p)
  case Nil
  then show ?case by simp
next
  case (Cons u ts)
  show ?case
  proof (cases "t = u")
    case True
    then show ?thesis
      by (simp add: materialize_Cons template_settled_materialize copy_template_settles)
  next
    case False
    with Cons show ?thesis by (simp add: materialize_Cons)
  qed
qed

lemma copy_template_settled: "template_settled e d p t \<Longrightarrow> copy_template e d p t = p"
  by (cases t) (auto simp: template_settled_def copy_template_def writeFileSync_def
      split: option.splits)

lemma materialize_settled:
  "\<forall>t\<in>set ts. template_settled e d p t \<Longrightarrow> materialize e d ts p = p"
  by (induction ts) (simp_all add: materialize_Nil materialize_Cons copy_template_settled)

lemma stringify_members_Cons:
  "stringify_members ((k, x) # ob) =
     (case x of None \<Rightarrow> stringify_members ob | Some v \<Rightarrow> (k, v) # stringify_members ob)"
  by (simp add: stringify_members_def map_filter_simps split: option.splits)

lemma stringify_members_Nil: "stringify_members [] = []"
  by (simp add: stringify_members_def map_filter_simps)

lemma stringify_members_snoc_undefined:
  "stringify_members (ob @ [(k, None)]) = stringify_members ob"
  by (induction ob) (auto simp: stringify_members_Cons stringify_members_Nil split: option.splits)

lemma stringify_insert_index_undefined:
  "stringify_members (insert_index k None ob) = stringify_members ob"
  by (induction ob) (auto simp: stringify_members_Cons stringify_members_Nil split: option.splits)

lemma js_set_same: "map_of ob k = Some v \<Longrightarrow> js_set ob k v = ob"
proof -
  assume a: "map_of ob k = Some v"
  then have "has_key k ob" by (auto simp: has_key_def dest: map_of_SomeD intro: rev_image_eqI)
  with a show ?thesis by (simp add: js_set_def update_triv)
qed

lemma stringify_js_set_undefined:
  assumes "map_of ob k = None \<or> map_of ob k = Some None"
  shows "stringify_members (js_set ob k None) = stringify_members ob"
proof (cases "map_of ob k")
  case None
  then have "\<not> has_key k ob" by (simp add: has_key_def map_of_eq_None_iff)
  then show ?thesis
    by (simp add: js_set_def stringify_insert_index_undefined stringify_members_snoc_undefined)
next
  case (Some x)
  with assms show ?thesis by (simp add: js_set_same)
qed

lemma stringify_spread_same:
  assumes "\<forall>kx\<in>set es. agrees_with ob kx"
  shows "stringify_members (spread_into ob es) = stringify_members ob"
  using assms
proof (induction es arbitrary: ob)
  case Nil
  then show ?case by (simp add: spread_into_Nil)
next
  case (Cons p es)
  obtain k x where p: "p = (k, x)" by (cases p)
  show ?case
  proof (cases x)
    case None
    with Cons.prems p have k: "map_of ob k = None \<or> map_of ob k = Some None"
      by (simp add: agrees_with_def)
    have "agrees_with (js_set ob k None) jy" if "jy \<in> set es" for jy
    proof -
      from Cons.prems that have o: "agrees_with ob jy" by simp
      show ?thesis
      proof (cases "fst jy = k")
        case True
        with o k show ?thesis
          by (cases "snd jy") (auto simp: agrees_with_def map_of_js_set)
      next
        case False
        with o show ?thesis
          by (cases "snd jy") (simp_all add: agrees_with_def map_of_js_set)
      qed
    qed
    then have "stringify_members (spread_into (js_set ob k None) es)
        = stringify_members (js_set ob k None)"
      by (intro Cons.IH ballI)
    with k p None show ?thesis by (simp add: spread_into_Cons stringify_js_set_undefined)
  next
    case (Some v)
    with Cons.prems p have "js_set ob k x = ob" by (simp add: js_set_same agrees_with_def)
    with Cons p show ?thesis by (simp add: spread_into_Cons)
  qed
qed

lemma map_fst_stringify_members:
  "map fst (stringify_members ob) = map fst (filter (\<lambda>p. snd p \<noteq> None) ob)"
  by (induction ob) (auto simp: stringify_members_Cons stringify_members_Nil split: option.splits)

lemma obj_wf_stringify_members: "obj_wf ob \<Longrightarrow> obj_wf (stringify_members ob)"
proof -
  assume wf: "obj_wf ob"
  let ?f = "filter (\<lambda>p. snd p \<noteq> None) ob"
  have "distinct (map fst ?f)" using wf by (simp add: obj_wf_def distinct_map_filter)
  moreover have "sorted_wrt (\<lambda>p q. index_before (fst p) (fst q)) ?f"
    using wf by (simp add: obj_wf_def sorted_wrt_filter)
  ultimately show ?thesis
    using sorted_wrt_map_fst_cong [of "stringify_members ob" ?f index_before]
    by (simp add: obj_wf_def map_fst_stringify_members)
qed

lemma new_resolutions_as_spread:
  "new_resolutions ex dev =
     spread_into (spread_opt [] (map_option defined_values ex))
       (pinned_resolutions dev
          @ [(''@typescript-eslint/utils'', js_get dev ''@typescript-eslint/parser'')])"
  by (simp add: new_resolutions_def spread_into_def)

lemma written_resolutions_lookup:
  assumes "k \<in> set (''@typescript-eslint/utils'' # pinned_packages)"
  shows "map_of (stringify_members (new_resolutions ex dev)) k = js_get dev (resolution_source k)"
proof -
  have d: "distinct (map fst (new_resolutions ex dev))"
    using obj_wf_new_resolutions [of ex dev] by (simp add: obj_wf_def)
  have "map_of (new_resolutions ex dev) k = Some (js_get dev (resolution_source k))"
    using assms utils_not_pinned by (auto simp: map_of_new_resolutions resolution_source_def)
  then show ?thesis
    by (cases "js_get dev (resolution_source k)") (simp_all add: map_of_stringify_members [OF d])
qed

lemma new_resolutions_again:
  "stringify_members (new_resolutions (Some (stringify_members (new_resolutions ex dev))) dev)
     = stringify_members (new_resolutions ex dev)"
proof -
  let ?r = "stringify_members (new_resolutions ex dev)"
  let ?a = "pinned_resolutions dev
          @ [(''@typescript-eslint/utils'', js_get dev ''@typescript-eslint/parser'')]"
  have wf: "obj_wf (defined_values ?r)"
    by (intro obj_wf_defined_values obj_wf_stringify_members obj_wf_new_resolutions)
  have base: "spread_opt [] (Some (defined_values ?r)) = defined_values ?r"
    using wf by (simp add: spread_opt_def spread_into_rebuild)
  have wfp: "obj_wf (pinned_resolutions dev)"
    unfolding pinned_resolutions_alt by (rule obj_wf_spread_into [OF obj_wf_Nil])
  have entry: "k \<in> set (''@typescript-eslint/utils'' # pinned_packages)
        \<and> x = js_get dev (resolution_source k)" if "(k, x) \<in> set ?a" for k x
  proof (cases "(k, x) \<in> set (pinned_resolutions dev)")
    case True
    then have "map_of (pinned_resolutions dev) k = Some x"
      using wfp by (simp add: obj_wf_def)
    then show ?thesis using utils_not_pinned
      by (auto simp: map_of_pinned_resolutions resolution_source_def split: if_splits)
  next
    case False
    with that show ?thesis by (simp add: resolution_source_def)
  qed
  have "\<forall>kx\<in>set ?a. agrees_with (defined_values ?r) kx"
  proof
    fix kx assume "kx \<in> set ?a"
    then have "fst kx \<in> set (''@typescript-eslint/utils'' # pinned_packages)"
      and "snd kx = js_get dev (resolution_source (fst kx))"
      using entry [of "fst kx" "snd kx"] by simp_all
    then show "agrees_with (defined_values ?r) kx"
      using written_resolutions_lookup [of "fst kx" ex dev]
      by (simp add: agrees_with_def map_of_defined_values split: option.splits)
  qed
  then have same: "stringify_members (spread_into (defined_values ?r) ?a)
      = stringify_members (defined_values ?r)"
    by (rule stringify_spread_same)
  have "new_resolutions (Some ?r) dev
      = spread_into (spread_opt [] (map_option defined_values (Some ?r))) ?a"
    by (rule new_resolutions_as_spread)
  also have "\<dots> = spread_into (defined_values ?r) ?a"
    by (simp only: option.map base)
  finally have "stringify_members (new_resolutions (Some ?r) dev)
      = stringify_members (spread_into (defined_values ?r) ?a)"
    by (rule arg_cong)
  also have "\<dots> = ?r" by (simp only: same stringify_defined_values)
  finally show ?thesis .
qed

lemma written_manifest_again:
  assumes "y' \<longrightarrow> y"
  shows "written_manifest e y' (written_manifest e y m) = written_manifest e y m"
proof -
  let ?w = "written_manifest e y m"
  have dev: "merged_devDependencies e ?w = merged_devDependencies e m"
    by (rule merged_devDependencies_again) (simp_all add: written_manifest_def Let_def)
  have "resolutions (written_manifest e y' ?w) = resolutions ?w"
  proof (cases y')
    case True
    with assms have w: "?w = written_manifest e True m" by simp
    have "resolutions (written_manifest e True ?w)
        = Some (stringify_members (new_resolutions (resolutions ?w) (merged_devDependencies e m)))"
      by (simp only: written_manifest_resolutions_yarn dev)
    moreover have "resolutions ?w = Some (stringify_members
        (new_resolutions (resolutions m) (merged_devDependencies e m)))"
      by (simp only: w written_manifest_resolutions_yarn)
    ultimately show ?thesis using True by (simp add: new_resolutions_again)
  next
    case False
    then show ?thesis by (simp add: written_manifest_resolutions_pnpm)
  qed
  moreover have "devDependencies (written_manifest e y' ?w) = devDependencies ?w"
    by (simp add: written_manifest_devDependencies dev)
  moreover have "dependencies (written_manifest e y' ?w) = dependencies ?w"
    "other_members (written_manifest e y' ?w) = other_members ?w"
    by (simp_all add: written_manifest_def Let_def)
  ultimately show ?thesis by (intro manifest.equality) simp_all
qed

subsection \<open>The sample project, run\<close>

lemma sample_merged:
  "merged_devDependencies sample_env sample_manifest =
     [(''@ts-safeql/eslint-plugin'', ''latest''),
      (''@typescript-eslint/parser'', ''^6.7.0''),
      (''eslint'', ''^8.50.0''),
      (''eslint-plugin-react'', ''^7.33.2''),
      (''libpg-query'', ''latest''),
      (''postcss-styled-syntax'', ''latest''),
      (''stylelint'', ''latest''),
      (''stylelint-config-css-modules'', ''latest''),
      (''stylelint-config-recommended'', ''latest''),
      (''stylelint-config-recommended-scss'', ''latest''),
      (''typescript'', ''^5.2.2'')]"
  by code_simp

lemma sample_resolutions:
  "stringify_members (new_resolutions (resolutions sample_manifest)
      (the (devDependencies (the (packageJson sample_result))))) =
     [(''lodash'', ''4.17.21''),
      (''@typescript-eslint/parser'', ''^6.7.0''),
      (''eslint-plugin-react'', ''^7.33.2''),
      (''@typescript-eslint/utils'', ''^6.7.0'')]"
  by code_simp


lemma sample_written:
  "written_manifest sample_env True sample_manifest = the (packageJson sample_result)"
proof -
  have d: "merged_devDependencies sample_env sample_manifest
      = the (devDependencies (the (packageJson sample_result)))"
    by (simp add: sample_merged sample_result_def)
  show ?thesis
    by (simp only: written_manifest_def Let_def d sample_resolutions if_True)
      (simp add: sample_manifest_def sample_result_def)
qed

lemma sample_yarn: "projectUsesYarn sample_project"
  by (simp add: projectUsesYarn_def existsSync_def sample_project_def)

lemma sample_materialize:
  "materialize sample_env (projectDependencies sample_manifest) (templates sample_env)
     (sample_project\<lparr>packageJson := packageJson sample_result\<rparr>)
   = \<lparr>packageJson = packageJson sample_result,
      files = [''.eslintrc.cjs'' \<mapsto> ''module.exports = {};'',
               ''stylelint.config.cjs'' \<mapsto> ''module.exports = {};'']\<rparr>"
  by (simp add: materialize_def copy_template_def uses_stylelint_def has_key_def
      projectDependencies_def sample_manifest_def sample_env_def sample_project_def
      existsSync_def writeFileSync_def)

lemma sample_update_gitignore:
  "update_gitignore sample_env
     \<lparr>packageJson = packageJson sample_result,
      files = [''.eslintrc.cjs'' \<mapsto> ''module.exports = {};'',
               ''stylelint.config.cjs'' \<mapsto> ''module.exports = {};'']\<rparr>
   = Some sample_result"
  by (simp add: update_gitignore_def writeFileSync_def gitignoreContentLines_def
      add_ignorePaths_def add_ignorePath_def gitignore_text_def sample_env_def sample_result_def)

lemma sample_prune: "prune_eslintrc sample_result = sample_result"
  by (simp add: prune_eslintrc_def sample_result_def)

lemma sample_run: "run sample_env sample_project = Inr sample_result"
proof -
  have m: "packageJson sample_project = Some sample_manifest"
    by (simp add: sample_project_def)
  have w: "Some (written_manifest sample_env True sample_manifest) = packageJson sample_result"
    by (simp add: sample_written) (simp add: sample_result_def)
  have e: "''package.json'' \<notin> set (unwritable sample_env)" "install_succeeds sample_env True"
    by (simp_all add: sample_env_def)
  show ?thesis
    using e sample_yarn
    by (simp add: run_def m w sample_materialize sample_update_gitignore sample_prune)
qed

lemma projectUsesYarn_files:
  "projectUsesYarn p = (files p ''pnpm-lock.yaml'' = None)"
  by (simp add: projectUsesYarn_def existsSync_def)

lemma existsSync_files_mono:
  assumes "existsSync p n" and "packageJson p' = packageJson p"
    and "files p n \<noteq> None \<Longrightarrow> files p' n \<noteq> None"
  shows "existsSync p' n"
  using assms by (auto simp: existsSync_def)

lemma template_settled_mono:
  assumes "template_settled e d p t" and "packageJson p' = packageJson p"
    and "files p (fst t) \<noteq> None \<Longrightarrow> files p' (fst t) \<noteq> None"
  shows "template_settled e d p' t"
  using assms existsSync_files_mono [of p "fst t" p']
  by (auto simp: template_settled_def)

lemma project_fixed:
  "packageJson p = Some m \<Longrightarrow> p\<lparr>packageJson := Some m\<rparr> = p"
  by (cases p) simp

lemma materialize_settled_name:
  "\<forall>t\<in>set ts. fst t = n \<longrightarrow> template_settled e d p t \<Longrightarrow>
   files (materialize e d ts p) n = files p n"
proof (induction ts arbitrary: p)
  case Nil
  then show ?case by (simp add: materialize_Nil)
next
  case (Cons u ts)
  have f: "files (copy_template e d p u) n = files p n"
  proof (cases "fst u = n")
    case True
    with Cons.prems show ?thesis by (simp add: copy_template_settled)
  next
    case False
    then show ?thesis by (simp add: copy_template_other)
  qed
  have "\<forall>t\<in>set ts. fst t = n \<longrightarrow> template_settled e d (copy_template e d p u) t"
    using Cons.prems by (simp add: template_settled_copy)
  then have "files (materialize e d ts (copy_template e d p u)) n = files (copy_template e d p u) n"
    by (rule Cons.IH)
  with f show ?case by (simp add: materialize_Cons)
qed

text \<open>What a run that has ended normally leaves behind.\<close>

lemma run_result:
  assumes "run e p = Inr p1" and "packageJson p = Some m"
  shows "packageJson p1 = Some (written_manifest e (projectUsesYarn p) m)"
    and "written_manifest e (projectUsesYarn p1) (written_manifest e (projectUsesYarn p) m)
           = written_manifest e (projectUsesYarn p) m"
    and "\<And>t. t \<in> set (templates e) \<Longrightarrow> fst t \<noteq> ''.eslintrc.json'' \<Longrightarrow>
           template_settled e (projectDependencies m) p1 t"
    and "\<exists>c. files p1 ''.gitignore'' = Some c
           \<and> gitignore_text (add_ignorePaths (split_lines c)) = c"
    and "prune_eslintrc p1 = p1"
    and "''package.json'' \<notin> set (unwritable e)" and "''.gitignore'' \<notin> set (unwritable e)"
    and "install_succeeds e (projectUsesYarn p)"
proof -
  from assms(1) obtain m0 p3 where m0: "packageJson p = Some m0"
    and pw: "''package.json'' \<notin> set (unwritable e)"
    and ins: "install_succeeds e (projectUsesYarn p)"
    and u0: "update_gitignore e
           (materialize e (projectDependencies m0) (templates e)
              (p\<lparr>packageJson := Some (written_manifest e (projectUsesYarn p) m0)\<rparr>)) = Some p3"
    and p1: "p1 = prune_eslintrc p3"
    by (rule run_Inr)
  from m0 assms(2) have "m0 = m" by simp
  let ?y = "projectUsesYarn p" and ?y1 = "projectUsesYarn p1"
  let ?w = "written_manifest e ?y m"
  let ?d = "projectDependencies m"
  let ?p2 = "materialize e ?d (templates e) (p\<lparr>packageJson := Some ?w\<rparr>)"
  let ?t = "gitignore_text (add_ignorePaths (gitignoreContentLines ?p2))"
  have u: "update_gitignore e ?p2 = Some p3" using u0 \<open>m0 = m\<close> by simp
  have f3: "files p3 = (files ?p2)(''.gitignore'' \<mapsto> ?t)"
    and j3: "packageJson p3 = packageJson ?p2"
    using update_gitignore_Some [OF u] by simp_all
  show "''package.json'' \<notin> set (unwritable e)" by (rule pw)
  show "install_succeeds e ?y" by (rule ins)
  show "''.gitignore'' \<notin> set (unwritable e)"
    using u by (auto simp: update_gitignore_def dest: writeFileSync_Some)
  show "packageJson p1 = Some ?w"
    using assms by (rule run_packageJson)
  have "?y1 \<longrightarrow> ?y"
  proof
    assume y1: ?y1
    show ?y
    proof (rule ccontr)
      assume "\<not> ?y"
      then obtain c where "files p ''pnpm-lock.yaml'' = Some c"
        by (auto simp: projectUsesYarn_files)
      with assms(1) have "files p1 ''pnpm-lock.yaml'' = Some c"
        by (rule run_keeps_other_files) simp_all
      with y1 show False by (simp add: projectUsesYarn_files)
    qed
  qed
  then show "written_manifest e ?y1 ?w = ?w" by (rule written_manifest_again)
  show "template_settled e ?d p1 t"
    if t: "t \<in> set (templates e)" and n: "fst t \<noteq> ''.eslintrc.json''" for t
  proof -
    have "template_settled e ?d ?p2 t" using t by (rule materialize_settles)
    then show ?thesis
    proof (rule template_settled_mono)
      show "packageJson p1 = packageJson ?p2"
        using p1 j3 by (simp add: prune_eslintrc_packageJson)
      show "files p1 (fst t) \<noteq> None" if "files ?p2 (fst t) \<noteq> None"
        using that p1 n f3 by (auto simp: prune_eslintrc_other)
    qed
  qed
  have "files p1 ''.gitignore'' = Some ?t"
    using p1 f3 by (simp add: prune_eslintrc_other)
  moreover have "gitignore_text (add_ignorePaths (split_lines ?t)) = ?t"
    by (rule gitignore_text_again)
  ultimately show "\<exists>c. files p1 ''.gitignore'' = Some c
           \<and> gitignore_text (add_ignorePaths (split_lines c)) = c"
    by blast
  show "prune_eslintrc p1 = p1"
    using p1 by (simp add: prune_eslintrc_again)
qed

lemma run_again_general:
  assumes "run e p = Inr p1" and "run e p1 = Inr p2"
  shows "packageJson p2 = packageJson p1"
    and "n \<noteq> ''.eslintrc.json'' \<Longrightarrow> files p2 n = files p1 n"
    and "''.eslintrc.json'' \<notin> fst ` set (templates e) \<Longrightarrow> p2 = p1"
proof -
  from assms(1) obtain m where m: "packageJson p = Some m" by (rule run_Inr)
  let ?w = "written_manifest e (projectUsesYarn p) m"
  let ?d = "projectDependencies m"
  note r = run_result [OF assms(1) m]
  from assms(2) obtain m1 p3 where m1: "packageJson p1 = Some m1"
    and u0: "update_gitignore e
           (materialize e (projectDependencies m1) (templates e)
              (p1\<lparr>packageJson := Some (written_manifest e (projectUsesYarn p1) m1)\<rparr>)) = Some p3"
    and p2: "p2 = prune_eslintrc p3"
    by (rule run_Inr)
  from m1 r(1) have m1w: "m1 = ?w" by simp
  have d1: "projectDependencies ?w = ?d"
    by (simp add: projectDependencies_def written_manifest_def Let_def)
  let ?q = "materialize e ?d (templates e) p1"
  have u: "update_gitignore e ?q = Some p3"
    using u0 by (simp add: m1w r(2) d1 project_fixed [OF r(1)])
  from r(4) obtain c where c: "files p1 ''.gitignore'' = Some c"
    and cc: "gitignore_text (add_ignorePaths (split_lines c)) = c"
    by blast
  have q: "files ?q k = files p1 k" if "k \<noteq> ''.eslintrc.json''" for k
    using that r(3) by (intro materialize_settled_name) simp
  have "gitignoreContentLines ?q = split_lines c"
    using q [of "''.gitignore''"] c by (simp add: gitignoreContentLines_def)
  then have f3: "files p3 = (files ?q)(''.gitignore'' \<mapsto> c)"
    using update_gitignore_Some(2) [OF u] cc by simp
  show "packageJson p2 = packageJson p1"
    using p2 update_gitignore_Some(1) [OF u]
    by (simp add: prune_eslintrc_packageJson materialize_packageJson)
  show files: "files p2 n = files p1 n" if "n \<noteq> ''.eslintrc.json''" for n
    using that p2 f3 q [of n] c by (simp add: prune_eslintrc_other)
  show "p2 = p1" if t: "''.eslintrc.json'' \<notin> fst ` set (templates e)"
  proof -
    have "template_settled e ?d p1 t" if "t \<in> set (templates e)" for t
    proof -
      have "fst t \<in> fst ` set (templates e)" using that by (rule imageI)
      with t have "fst t \<noteq> ''.eslintrc.json''" by metis
      with that show ?thesis by (rule r(3))
    qed
    then have "?q = p1" by (intro materialize_settled) simp
    with f3 c have "files p3 = files p1" by (simp add: fun_upd_idem)
    moreover have "packageJson p3 = packageJson p1"
      using update_gitignore_Some(1) [OF u] by (simp add: materialize_packageJson)
    ultimately have "p3 = p1" by (intro project.equality) simp_all
    with p2 r(5) show ?thesis by simp
  qed
qed

lemma run_other_files:
  assumes "run e p = Inr p'" and "n \<notin> fst ` set (templates e)"
    and "n \<noteq> ''.gitignore''" and "n \<noteq> ''.eslintrc.json''"
  shows "files p' n = files p n"
proof -
  from assms(1) obtain m p3 where
    u: "update_gitignore e
           (materialize e (projectDependencies m) (templates e)
              (p\<lparr>packageJson := Some (written_manifest e (projectUsesYarn p) m)\<rparr>)) = Some p3"
    and p': "p' = prune_eslintrc p3"
    by (rule run_Inr)
  have "files (materialize e (projectDependencies m) (templates e)
              (p\<lparr>packageJson := Some (written_manifest e (projectUsesYarn p) m)\<rparr>)) n
      = files p n"
    using assms(2) by (simp add: materialize_other)
  then have "files p3 n = files p n"
    using update_gitignore_Some(2) [OF u] assms(3) by simp
  then show ?thesis using p' assms(4) by (simp add: prune_eslintrc_other)
qed

lemma run_again_succeeds:
  assumes "run e p = Inr p1" and "''pnpm-lock.yaml'' \<notin> fst ` set (templates e)"
  shows "\<exists>p2. run e p1 = Inr p2"
proof -
  from assms(1) obtain m where m: "packageJson p = Some m" by (rule run_Inr)
  note r = run_result [OF assms(1) m]
  have "files p1 ''pnpm-lock.yaml'' = files p ''pnpm-lock.yaml''"
    using assms by (rule run_other_files) simp_all
  then have "projectUsesYarn p1 = projectUsesYarn p"
    by (simp add: projectUsesYarn_files)
  with r(8) have "install_succeeds e (projectUsesYarn p1)" by simp
  with r(1) r(6) show ?thesis using r(7) by (rule run_succeeds)
qed

subsection \<open>C1: running the script again\<close>

text \<open>
  C1. Take a project on which a run has ended normally, and run the script again on the
  result, with the same base table, platform and template directory. A second run that
  ends normally leaves the manifest, with its devDependencies and resolutions, as the first
  run left it, and likewise the content of \<^verbatim>\<open>.gitignore\<close> and of every other file except
  possibly \<^verbatim>\<open>.eslintrc.json\<close>: no pattern is appended twice, no template is copied again.
  When no template is named \<^verbatim>\<open>.eslintrc.json\<close>, the file that the script itself deletes,
  the whole project is as the first run left it. The second run does end normally when no
  template is named \<^verbatim>\<open>pnpm-lock.yaml\<close>, so that the same package manager is chosen.
\<close>

theorem run_idempotent:
  assumes "run e p = Inr p1"
  shows "(\<forall>p2. run e p1 = Inr p2 \<longrightarrow>
            packageJson p2 = packageJson p1
            \<and> (\<forall>n. n \<noteq> ''.eslintrc.json'' \<longrightarrow> files p2 n = files p1 n)
            \<and> (''.eslintrc.json'' \<notin> fst ` set (templates e) \<longrightarrow> p2 = p1))
    \<and> (''pnpm-lock.yaml'' \<notin> fst ` set (templates e) \<longrightarrow> (\<exists>p2. run e p1 = Inr p2))"
  using run_again_general [OF assms] run_again_succeeds [OF assms] by blast

theorem run_idempotent_witness:
  "run sample_env sample_project = Inr sample_result
   \<and> ''.eslintrc.json'' \<notin> fst ` set (templates sample_env)
   \<and> ''pnpm-lock.yaml'' \<notin> fst ` set (templates sample_env)
   \<and> run sample_env sample_result = Inr sample_result"
proof -
  have h2: "''.eslintrc.json'' \<notin> fst ` set (templates sample_env)"
    and h3: "''pnpm-lock.yaml'' \<notin> fst ` set (templates sample_env)"
    by (simp_all add: sample_env_def)
  note t = run_idempotent [OF sample_run]
  from t h3 obtain p2 where r: "run sample_env sample_result = Inr p2" by blast
  with t h2 have "p2 = sample_result" by blast
  with r sample_run h2 h3 show ?thesis by blast
qed

end
